theory Spec2Isabelle
  imports Main "HOL-Library.Word" "HOL-Library.Signed_Division"
begin

section \<open>Common data\<close>

type_synonym byte = "8 word"

text \<open>Go's \<open>int\<close> on the 64-bit targets the proxy is built for: a signed 64-bit
  integer whose arithmetic wraps around. Values that stay in \<open>int\<close> are wrapped
  explicitly with \<open>wrap64\<close>.\<close>

definition wrap64 :: "int \<Rightarrow> int" where
  "wrap64 x = signed_take_bit 63 x"

text \<open>Run-time panics of the Go runtime that the modelled code can raise.\<close>

datatype go_panic = MakeSliceLenOutOfRange | SliceBoundsOutOfRange | NilPointerDereference

text \<open>Go \<open>error\<close> values: the two sentinels of package \<open>io\<close> the code compares
  against, an error produced by an external library, and \<open>fmt.Errorf("...: %w", err)\<close>.\<close>

datatype go_error = ErrClosedPipe | EOF | ErrExternal string | Errorf string go_error

section \<open>AudioTranscoder: \<open>splitIntoChunks\<close>\<close>

text \<open>\<open>bytesPerChunk := (sampleRate * 2 * chunkDurationMs) / 1000\<close>: the product wraps
  at 64 bits, the quotient truncates towards zero.\<close>

definition bytesPerChunk :: "64 word \<Rightarrow> 64 word \<Rightarrow> int" where
  "bytesPerChunk sampleRate chunkDurationMs =
     sint (sampleRate * 2 * chunkDurationMs) sdiv 1000"

text \<open>The \<open>for offset := 0; offset < len(audioData); offset += bytesPerChunk\<close> loop.
  \<open>None\<close> is a loop that never ends; \<open>Inl\<close> is a run-time panic
  (\<open>make\<close> with a negative length, a slice expression out of bounds).\<close>

partial_function (option) split_loop ::
  "byte list \<Rightarrow> int \<Rightarrow> int \<Rightarrow> byte list list \<Rightarrow> (go_panic + byte list list) option"
where
  "split_loop audioData bpc offset chunks =
     (if offset < int (length audioData) then
        (if wrap64 ((if wrap64 (offset + bpc) > int (length audioData)
                     then int (length audioData) else wrap64 (offset + bpc)) - offset) < 0
         then Some (Inl MakeSliceLenOutOfRange)
         else if offset < 0 \<or>
                 (if wrap64 (offset + bpc) > int (length audioData)
                  then int (length audioData) else wrap64 (offset + bpc)) < offset
         then Some (Inl SliceBoundsOutOfRange)
         else split_loop audioData bpc (wrap64 (offset + bpc))
                (chunks @
                 [take (nat ((if wrap64 (offset + bpc) > int (length audioData)
                              then int (length audioData) else wrap64 (offset + bpc)) - offset))
                       (drop (nat offset) audioData)]))
      else Some (Inr chunks))"

declare split_loop.simps [code]

definition splitIntoChunks ::
  "byte list \<Rightarrow> 64 word \<Rightarrow> 64 word \<Rightarrow> (go_panic + byte list list) option" where
  "splitIntoChunks audioData sampleRate chunkDurationMs =
     split_loop audioData (bytesPerChunk sampleRate chunkDurationMs) 0 []"

text \<open>Reference function for the windows the specification describes: consecutive
  slices of \<open>n\<close> elements, the last one possibly shorter.\<close>

function windows :: "nat \<Rightarrow> 'a list \<Rightarrow> 'a list list" where
  "windows n xs = (if n = 0 \<or> xs = [] then [] else take n xs # windows n (drop n xs))"
  by pat_completeness auto
termination
  by (relation "measure (\<lambda>(n, xs). length xs)") auto

declare windows.simps [simp del]

section \<open>AudioTranscoder: G.711 and RTP helpers\<close>

text \<open>The companding tables live in the external package \<open>g711\<close>; its four entry
  points are parameters of the model.\<close>

record g711 =
  DecodeUlaw :: "byte list \<Rightarrow> byte list"
  DecodeAlaw :: "byte list \<Rightarrow> byte list"
  EncodeUlaw :: "byte list \<Rightarrow> byte list"
  EncodeAlaw :: "byte list \<Rightarrow> byte list"

definition decodeG711 :: "g711 \<Rightarrow> byte list \<Rightarrow> string \<Rightarrow> byte list" where
  "decodeG711 lib rtpPayload codec =
     (if codec = ''PCMU'' then DecodeUlaw lib rtpPayload
      else if codec = ''PCMA'' then DecodeAlaw lib rtpPayload
      else [])"

definition encodeG711 :: "g711 \<Rightarrow> byte list \<Rightarrow> string \<Rightarrow> byte list" where
  "encodeG711 lib pcmData codec =
     (if codec = ''PCMU'' then EncodeUlaw lib pcmData
      else if codec = ''PCMA'' then EncodeAlaw lib pcmData
      else [])"

text \<open>The fields of \<open>rtp.Packet\<close> that \<open>extractRTPPayload\<close> reads. The parser
  \<open>packet.Unmarshal\<close> belongs to the external package \<open>rtp\<close> and is a parameter: it
  yields the parsed packet or the library's error.\<close>

record rtp_Packet =
  PayloadType :: byte
  SequenceNumber :: "16 word"
  Timestamp :: "32 word"
  Payload :: "byte list"

text \<open>The result tuple \<open>(payloadType, payload, sequenceNumber, timestamp)\<close>; a
  \<open>nil\<close> payload is \<open>None\<close>. The error result is \<open>Inl\<close>.\<close>

definition extractRTPPayload ::
  "(byte list \<Rightarrow> go_error + rtp_Packet) \<Rightarrow> byte list \<Rightarrow>
   go_error + (byte \<times> byte list option \<times> 16 word \<times> 32 word)" where
  "extractRTPPayload Unmarshal rtpPacket =
     (case Unmarshal rtpPacket of
        Inl err \<Rightarrow> Inl (Errorf ''failed to unmarshal RTP packet'' err)
      | Inr packet \<Rightarrow>
          (if length (Payload packet) = 0
           then Inr (PayloadType packet, None, SequenceNumber packet, Timestamp packet)
           else Inr (PayloadType packet, Some (Payload packet),
                     SequenceNumber packet, Timestamp packet)))"

section \<open>Bridge\<close>

record MediaChunk =
  Data :: "byte list"
  SenderID :: string

text \<open>A participant is whatever implements \<open>ID()\<close> and \<open>Writer()\<close>. An \<open>io.Writer\<close>
  acts on the world outside the bridge (sockets, backend sessions, output queues), of
  type \<open>'w\<close>, and returns \<open>(n, err)\<close>; a \<open>nil\<close> writer is \<open>None\<close>. \<open>FlushQueue\<close> is
  present exactly when the participant's dynamic type also implements \<open>QueueFlusher\<close>.\<close>

type_synonym 'w io_Writer = "byte list \<Rightarrow> 'w \<Rightarrow> (int \<times> go_error option) \<times> 'w"

record 'w Participant =
  ID :: string
  Writer :: "'w io_Writer option"
  FlushQueue :: "('w \<Rightarrow> 'w) option"

text \<open>\<open>chunkChan\<close> holds the buffered chunks, oldest first; \<open>stopChan\<close> is \<open>True\<close> once
  the channel has been closed. The lock and the wait group carry no data.\<close>

record 'w DefaultMediaBridge =
  participants :: "string \<rightharpoonup> 'w Participant"
  chunkChan :: "MediaChunk list"
  stopChan :: bool

definition chunkChan_cap :: nat where
  "chunkChan_cap = 200"

definition NewMediaBridge :: "'w DefaultMediaBridge" where
  "NewMediaBridge = \<lparr>participants = Map.empty, chunkChan = [], stopChan = False\<rparr>"

definition AddParticipant ::
  "'w Participant \<Rightarrow> 'w DefaultMediaBridge \<Rightarrow> go_error option \<times> 'w DefaultMediaBridge" where
  "AddParticipant participant m =
     (None, m\<lparr>participants := (participants m)(ID participant \<mapsto> participant)\<rparr>)"

definition RemoveParticipant ::
  "string \<Rightarrow> 'w DefaultMediaBridge \<Rightarrow> go_error option \<times> 'w DefaultMediaBridge" where
  "RemoveParticipant participantID m =
     (if participants m participantID \<noteq> None
      then (None, m\<lparr>participants := (participants m)(participantID := None)\<rparr>)
      else (None, m))"

text \<open>A \<open>select\<close> statement runs one of the cases that can proceed; when several can,
  the runtime picks one of them at random, and \<open>default\<close> runs only when none can.
  The runtime's pick is the first argument of the functions that model a \<open>select\<close>.\<close>

datatype select_case = SendChunk | RecvChunk | RecvStop

definition Broadcast ::
  "select_case \<Rightarrow> MediaChunk \<Rightarrow> 'w DefaultMediaBridge \<Rightarrow>
   go_error option \<times> 'w DefaultMediaBridge" where
  "Broadcast pick chunk m =
     (if length (chunkChan m) < chunkChan_cap
      then
        (if stopChan m
         then
           (case pick of
              SendChunk \<Rightarrow> (None, m\<lparr>chunkChan := chunkChan m @ [chunk]\<rparr>)
            | _ \<Rightarrow> (Some ErrClosedPipe, m))
         else (None, m\<lparr>chunkChan := chunkChan m @ [chunk]\<rparr>))
      else if stopChan m then (Some ErrClosedPipe, m)
      else (None, m))"

text \<open>What the bridge does to the outside, in order: lock operations on \<open>mu\<close>, calls
  of a participant's \<open>Write\<close> with the bytes passed and the error returned, deletions
  from the registry, calls of a participant's \<open>FlushQueue\<close>.\<close>

datatype bridge_event =
    MuRLock | MuRUnlock | MuLock | MuUnlock
  | WriteCall string "byte list" "go_error option"
  | DeleteCall string
  | FlushQueueCall string

text \<open>\<open>for id, participant := range participantsSnapshot\<close> visits every key of the
  map once, in an order the runtime chooses. The order is the list \<open>order\<close>; it is a
  possible order of the map when \<open>range_order\<close> holds.\<close>

definition range_order :: "(string \<rightharpoonup> 'a) \<Rightarrow> string list \<Rightarrow> bool" where
  "range_order snapshot order \<longleftrightarrow> distinct order \<and> set order = dom snapshot"

text \<open>The loop of \<open>FlushQueues\<close>.\<close>

fun flush_loop ::
  "(string \<rightharpoonup> 'w Participant) \<Rightarrow> string list \<Rightarrow> 'w \<Rightarrow> nat \<Rightarrow> bridge_event list \<Rightarrow>
   'w \<times> nat \<times> bridge_event list" where
  "flush_loop snapshot [] w flushedCount tr = (w, flushedCount, tr)"
| "flush_loop snapshot (pid # pids) w flushedCount tr =
     (case snapshot pid of
        None \<Rightarrow> flush_loop snapshot pids w flushedCount tr
      | Some participant \<Rightarrow>
          (case FlushQueue participant of
             Some flusher \<Rightarrow>
               flush_loop snapshot pids (flusher w) (flushedCount + 1) (tr @ [FlushQueueCall pid])
           | None \<Rightarrow> flush_loop snapshot pids w flushedCount tr))"

definition FlushQueues ::
  "string list \<Rightarrow> 'w DefaultMediaBridge \<Rightarrow> 'w \<Rightarrow>
   go_error option \<times> 'w DefaultMediaBridge \<times> 'w \<times> nat \<times> bridge_event list" where
  "FlushQueues order m w =
     (case flush_loop (participants m) order w 0 [] of
        (w', flushedCount, tr) \<Rightarrow> (None, m, w', flushedCount, [MuRLock, MuRUnlock] @ tr))"

text \<open>The fan-out loop of \<open>broadcastChunk\<close>; its state is the outside world,
  \<open>participantsToRemove\<close>, \<open>sentCount\<close> and the events so far.\<close>

fun fanout ::
  "(string \<rightharpoonup> 'w Participant) \<Rightarrow> MediaChunk \<Rightarrow> string list \<Rightarrow>
   'w \<Rightarrow> string list \<Rightarrow> nat \<Rightarrow> bridge_event list \<Rightarrow>
   'w \<times> string list \<times> nat \<times> bridge_event list" where
  "fanout snapshot chunk [] w participantsToRemove sentCount tr =
     (w, participantsToRemove, sentCount, tr)"
| "fanout snapshot chunk (pid # pids) w participantsToRemove sentCount tr =
     (case snapshot pid of
        None \<Rightarrow> fanout snapshot chunk pids w participantsToRemove sentCount tr
      | Some participant \<Rightarrow>
          if pid = SenderID chunk
          then fanout snapshot chunk pids w participantsToRemove sentCount tr
          else
            (case Writer participant of
               None \<Rightarrow> fanout snapshot chunk pids w participantsToRemove sentCount tr
             | Some writer \<Rightarrow>
                 (case writer (Data chunk) w of
                    ((n, Some err), w') \<Rightarrow>
                      if err = ErrClosedPipe
                      then fanout snapshot chunk pids w' (participantsToRemove @ [pid]) sentCount
                             (tr @ [WriteCall pid (Data chunk) (Some err)])
                      else fanout snapshot chunk pids w' participantsToRemove sentCount
                             (tr @ [WriteCall pid (Data chunk) (Some err)])
                  | ((n, None), w') \<Rightarrow>
                      fanout snapshot chunk pids w' participantsToRemove (sentCount + 1)
                        (tr @ [WriteCall pid (Data chunk) None]))))"

definition delete_all :: "string list \<Rightarrow> (string \<rightharpoonup> 'a) \<Rightarrow> (string \<rightharpoonup> 'a)" where
  "delete_all pids ps = fold (\<lambda>pid ps. ps(pid := None)) pids ps"

definition broadcastChunk ::
  "string list \<Rightarrow> MediaChunk \<Rightarrow> 'w DefaultMediaBridge \<Rightarrow> 'w \<Rightarrow>
   'w DefaultMediaBridge \<times> 'w \<times> bridge_event list" where
  "broadcastChunk order chunk m w =
     (case fanout (participants m) chunk order w [] 0 [] of
        (w', participantsToRemove, sentCount, tr) \<Rightarrow>
          if length participantsToRemove > 0
          then (m\<lparr>participants := delete_all participantsToRemove (participants m)\<rparr>, w',
                [MuRLock, MuRUnlock] @ tr @ [MuLock] @ map DeleteCall participantsToRemove
                  @ [MuUnlock])
          else (m, w', [MuRLock, MuRUnlock] @ tr))"

text \<open>One iteration of the worker that \<open>Start\<close> spawns: it takes the oldest chunk and
  fans it out, or observes the stop signal and returns, or waits when neither is
  ready. The observation says which.\<close>

datatype observation =
    Enqueued MediaChunk | Dropped MediaChunk | Refused MediaChunk
  | Processed MediaChunk "bridge_event list" | WorkerExited | WorkerWaiting | Quiet

record 'w system =
  bridge :: "'w DefaultMediaBridge"
  world :: 'w
  worker_running :: bool

definition worker_iteration ::
  "select_case \<Rightarrow> string list \<Rightarrow> 'w system \<Rightarrow> 'w system \<times> observation" where
  "worker_iteration pick order s =
     (if \<not> worker_running s then (s, Quiet)
      else
        (case chunkChan (bridge s) of
           chunk # rest \<Rightarrow>
             if stopChan (bridge s) \<and> pick \<noteq> RecvChunk
             then (s\<lparr>worker_running := False\<rparr>, WorkerExited)
             else
               (case broadcastChunk order chunk ((bridge s)\<lparr>chunkChan := rest\<rparr>) (world s) of
                  (m', w', tr) \<Rightarrow> (s\<lparr>bridge := m', world := w'\<rparr>, Processed chunk tr))
         | [] \<Rightarrow>
             if stopChan (bridge s)
             then (s\<lparr>worker_running := False\<rparr>, WorkerExited)
             else (s, WorkerWaiting)))"

text \<open>The calls that reach a running bridge, interleaved with the worker's
  iterations in any order.\<close>

datatype 'w action =
    DoBroadcast select_case MediaChunk
  | DoWorker select_case "string list"
  | DoAddParticipant "'w Participant"
  | DoRemoveParticipant string
  | DoCloseStopChan

fun step :: "'w action \<Rightarrow> 'w system \<Rightarrow> 'w system \<times> observation" where
  "step (DoBroadcast pick chunk) s =
     (case Broadcast pick chunk (bridge s) of
        (Some err, m') \<Rightarrow> (s\<lparr>bridge := m'\<rparr>, Refused chunk)
      | (None, m') \<Rightarrow>
          (s\<lparr>bridge := m'\<rparr>,
           if length (chunkChan m') = length (chunkChan (bridge s)) then Dropped chunk
           else Enqueued chunk))"
| "step (DoWorker pick order) s = worker_iteration pick order s"
| "step (DoAddParticipant p) s = (s\<lparr>bridge := snd (AddParticipant p (bridge s))\<rparr>, Quiet)"
| "step (DoRemoveParticipant i) s = (s\<lparr>bridge := snd (RemoveParticipant i (bridge s))\<rparr>, Quiet)"
| "step DoCloseStopChan s = (s\<lparr>bridge := (bridge s)\<lparr>stopChan := True\<rparr>\<rparr>, Quiet)"

fun run :: "'w action list \<Rightarrow> 'w system \<Rightarrow> 'w system \<times> observation list" where
  "run [] s = (s, [])"
| "run (a # as) s =
     (case step a s of (s', ob) \<Rightarrow> (case run as s' of (s'', obs) \<Rightarrow> (s'', ob # obs)))"

text \<open>Readers of event lists and observation lists.\<close>

fun write_target :: "bridge_event \<Rightarrow> string option" where
  "write_target (WriteCall i d e) = Some i"
| "write_target ev = None"

fun write_data :: "bridge_event \<Rightarrow> byte list option" where
  "write_data (WriteCall i d e) = Some d"
| "write_data ev = None"

fun closed_pipe_target :: "bridge_event \<Rightarrow> string option" where
  "closed_pipe_target (WriteCall i d e) = (if e = Some ErrClosedPipe then Some i else None)"
| "closed_pipe_target ev = None"

definition written_ids :: "bridge_event list \<Rightarrow> string list" where
  "written_ids tr = List.map_filter write_target tr"

definition closed_ids :: "bridge_event list \<Rightarrow> string list" where
  "closed_ids tr = List.map_filter closed_pipe_target tr"

definition flushed_ids :: "bridge_event list \<Rightarrow> string list" where
  "flushed_ids tr = List.map_filter (\<lambda>ev. case ev of FlushQueueCall i \<Rightarrow> Some i | _ \<Rightarrow> None) tr"

definition enqueued :: "observation list \<Rightarrow> MediaChunk list" where
  "enqueued obs = List.map_filter (\<lambda>ob. case ob of Enqueued c \<Rightarrow> Some c | _ \<Rightarrow> None) obs"

definition processed :: "observation list \<Rightarrow> MediaChunk list" where
  "processed obs = List.map_filter (\<lambda>ob. case ob of Processed c tr \<Rightarrow> Some c | _ \<Rightarrow> None) obs"

text \<open>The participants the fan-out of a chunk writes to: registered, not the sender,
  with a writer.\<close>

definition eligible :: "(string \<rightharpoonup> 'w Participant) \<Rightarrow> MediaChunk \<Rightarrow> string \<Rightarrow> bool" where
  "eligible snapshot chunk i \<longleftrightarrow>
     (case snapshot i of
        None \<Rightarrow> False
      | Some p \<Rightarrow> i \<noteq> SenderID chunk \<and> Writer p \<noteq> None)"

fun is_write_of :: "byte list \<Rightarrow> bridge_event \<Rightarrow> bool" where
  "is_write_of d (WriteCall i d' e) \<longleftrightarrow> d' = d"
| "is_write_of d ev \<longleftrightarrow> False"

text \<open>A bridge to evaluate the model on. The outside world counts the bytes that
  reached a sink. \<open>B\<close>'s sink is closed, \<open>C\<close>'s fails with another error, \<open>E\<close> has no
  writer; \<open>D\<close> and \<open>E\<close> can be asked to flush.\<close>

definition sink_ok :: "nat io_Writer" where
  "sink_ok d w = ((int (length d), None), w + length d)"

definition sink_closed :: "nat io_Writer" where
  "sink_closed d w = ((0, Some ErrClosedPipe), w)"

definition sink_failing :: "nat io_Writer" where
  "sink_failing d w = ((0, Some (ErrExternal ''timeout'')), w)"

definition example_registry :: "string \<rightharpoonup> nat Participant" where
  "example_registry =
     [''A'' \<mapsto> \<lparr>ID = ''A'', Writer = Some sink_ok, FlushQueue = None\<rparr>,
      ''B'' \<mapsto> \<lparr>ID = ''B'', Writer = Some sink_closed, FlushQueue = None\<rparr>,
      ''C'' \<mapsto> \<lparr>ID = ''C'', Writer = Some sink_failing, FlushQueue = None\<rparr>,
      ''D'' \<mapsto> \<lparr>ID = ''D'', Writer = Some sink_ok, FlushQueue = Some (\<lambda>w. 0)\<rparr>,
      ''E'' \<mapsto> \<lparr>ID = ''E'', Writer = None, FlushQueue = Some (\<lambda>w. 0)\<rparr>]"

definition example_bridge :: "nat DefaultMediaBridge" where
  "example_bridge = \<lparr>participants = example_registry, chunkChan = [], stopChan = False\<rparr>"

definition example_order :: "string list" where
  "example_order = [''D'', ''B'', ''A'', ''E'', ''C'']"

definition example_chunk :: MediaChunk where
  "example_chunk = \<lparr>Data = [1, 2, 3], SenderID = ''A''\<rparr>"

section \<open>AI session handler\<close>

text \<open>The fields of \<open>GeminiHandler\<close> that the modelled methods read or write.
  \<open>mediaBridge\<close> and \<open>cancel\<close> say whether the field is non-\<open>nil\<close>; \<open>g_stopChan\<close> is
  \<open>True\<close> once the handler's stop channel has been closed; \<open>ctx_cancelled\<close> is the state
  of the context behind \<open>cancel\<close>; \<open>session\<close> is the handle of the backend session.\<close>

record GeminiHandler =
  mediaBridge :: bool
  participantID :: string
  g_stopChan :: bool
  cancel :: bool
  ctx_cancelled :: bool
  session :: "nat option"
  sessionClosed :: bool
  firstDataReceived :: bool

text \<open>What the handler does to the backend session and to the bridge, in order.\<close>

datatype handler_event =
    SetSessionClosed
  | CloseStopChan
  | WaitReceiveLoop bool
  | SessionClose nat "go_error option"
  | CancelContext
  | BridgeRemoveParticipant string
  | BridgeFlushQueues
  | BridgeBroadcast MediaChunk
  | SendClientContent nat string "go_error option"
  | SendRealtimeInput nat "byte list" "go_error option"

text \<open>The outcomes of the external calls one \<open>Write\<close> makes: sending the "Hello"
  turn, the three steps of the 8 kHz to 16 kHz resampler with the bytes it leaves in
  \<open>outputBuf\<close>, and sending the audio.\<close>

record write_env =
  hello_result :: "go_error option"
  resample_New :: "go_error option"
  resampler_Write :: "go_error option"
  resampler_Close :: "go_error option"
  resampled :: "byte list"
  send_result :: "go_error option"

definition Write ::
  "write_env \<Rightarrow> byte list \<Rightarrow> GeminiHandler \<Rightarrow>
   (int \<times> go_error option) \<times> GeminiHandler \<times> handler_event list" where
  "Write env pcmData g =
     (case session g of
        None \<Rightarrow> ((0, Some ErrClosedPipe), g, [])
      | Some sess \<Rightarrow>
          if sessionClosed g then ((0, Some ErrClosedPipe), g, [])
          else if length pcmData = 0 then ((int (length pcmData), None), g, [])
          else
            (case (if \<not> firstDataReceived g
                   then (g\<lparr>firstDataReceived := True\<rparr>,
                         [SendClientContent sess ''Hello'' (hello_result env)])
                   else (g, [])) of
               (g', hello) \<Rightarrow>
                 (case resample_New env of
                    Some err \<Rightarrow> ((0, Some err), g', hello)
                  | None \<Rightarrow>
                 (case resampler_Write env of
                    Some err \<Rightarrow> ((0, Some err), g', hello)
                  | None \<Rightarrow>
                 (case resampler_Close env of
                    Some err \<Rightarrow> ((0, Some err), g', hello)
                  | None \<Rightarrow>
                 (case send_result env of
                    Some err \<Rightarrow>
                      ((0, Some err), g',
                       hello @ [SendRealtimeInput sess (resampled env) (Some err)])
                  | None \<Rightarrow>
                      ((int (length pcmData), None), g',
                       hello @ [SendRealtimeInput sess (resampled env) None])))))))"

definition markSessionClosed :: "GeminiHandler \<Rightarrow> GeminiHandler" where
  "markSessionClosed g = g\<lparr>sessionClosed := True\<rparr>"

text \<open>\<open>removeFromBridge\<close> and \<open>Close\<close> act on the handler and on the bridge it is
  registered with. \<open>Close\<close> is given whether the receive goroutine finished before the
  five-second timer, and the result of closing the session.\<close>

definition removeFromBridge ::
  "GeminiHandler \<Rightarrow> 'w DefaultMediaBridge \<Rightarrow> 'w DefaultMediaBridge \<times> handler_event list" where
  "removeFromBridge g m =
     (if mediaBridge g
      then (snd (RemoveParticipant (participantID g) m),
            [BridgeRemoveParticipant (participantID g)])
      else (m, []))"

definition Close ::
  "bool \<Rightarrow> go_error option \<Rightarrow> GeminiHandler \<Rightarrow> 'w DefaultMediaBridge \<Rightarrow>
   go_error option \<times> GeminiHandler \<times> 'w DefaultMediaBridge \<times> handler_event list" where
  "Close loop_done close_result g m =
     (let g1 = markSessionClosed g;
          ev1 = [SetSessionClosed];
          g2 = (if g_stopChan g1 then g1 else g1\<lparr>g_stopChan := True\<rparr>);
          ev2 = (if g_stopChan g1 then [] else [CloseStopChan]);
          ev3 = [WaitReceiveLoop loop_done];
          g3 = g2\<lparr>session := None\<rparr>;
          ev4 = (case session g2 of
                   Some sess \<Rightarrow> [SessionClose sess close_result]
                 | None \<Rightarrow> []);
          g4 = (if cancel g3 then g3\<lparr>ctx_cancelled := True\<rparr> else g3);
          ev5 = (if cancel g3 then [CancelContext] else []);
          m' = (if mediaBridge g4 then snd (RemoveParticipant (participantID g4) m) else m);
          ev6 = (if mediaBridge g4 then [BridgeRemoveParticipant (participantID g4)] else [])
      in (None, g4, m', ev1 @ ev2 @ ev3 @ ev4 @ ev5 @ ev6))"

text \<open>The messages of the backend, as far as the receive loop looks at them.\<close>

record Part =
  InlineData :: "byte list option"

record LiveServerContent =
  ModelTurn :: "Part list option"
  InputTranscription :: "string option"
  OutputTranscription :: "string option"
  TurnComplete :: bool
  Interrupted :: bool

record LiveServerMessage =
  ServerContent :: "LiveServerContent option"
  UsageMetadata :: bool

text \<open>What the guarded \<open>session.Receive()\<close> hands to the loop: a message, an error,
  or \<open>(nil, nil)\<close> after a recovered panic.\<close>

datatype receive_result =
    Received LiveServerMessage | ReceiveError go_error | ReceiveRecovered

text \<open>The loop over the parts of a model turn. \<open>resample\<close> is the 24 kHz to 8 kHz
  pass of the external resampler; a part whose resampling fails is skipped.
  \<open>BroadcastResponse\<close> calls the bridge without a \<open>nil\<close> check.\<close>

fun broadcast_parts ::
  "(byte list \<Rightarrow> go_error + byte list) \<Rightarrow> GeminiHandler \<Rightarrow> Part list \<Rightarrow>
   handler_event list \<times> go_panic option" where
  "broadcast_parts resample g [] = ([], None)"
| "broadcast_parts resample g (part # parts) =
     (case InlineData part of
        None \<Rightarrow> broadcast_parts resample g parts
      | Some audioData \<Rightarrow>
          (case resample audioData of
             Inl err \<Rightarrow> broadcast_parts resample g parts
           | Inr resampledAudio \<Rightarrow>
               if \<not> mediaBridge g then ([], Some NilPointerDereference)
               else
                 (case broadcast_parts resample g parts of
                    (evs, p) \<Rightarrow>
                      (BridgeBroadcast \<lparr>Data = resampledAudio, SenderID = participantID g\<rparr>
                         # evs, p))))"

definition handle_message ::
  "(byte list \<Rightarrow> go_error + byte list) \<Rightarrow> LiveServerMessage \<Rightarrow> GeminiHandler \<Rightarrow>
   handler_event list \<times> go_panic option" where
  "handle_message resample message g =
     (case ServerContent message of
        None \<Rightarrow> ([], None)
      | Some content \<Rightarrow>
          (case (case ModelTurn content of
                   None \<Rightarrow> ([], None)
                 | Some parts \<Rightarrow> broadcast_parts resample g parts) of
             (evs, Some p) \<Rightarrow> (evs, Some p)
           | (evs, None) \<Rightarrow>
               if Interrupted content \<and> mediaBridge g
               then (evs @ [BridgeFlushQueues], None)
               else (evs, None)))"

text \<open>One iteration of the loop of \<open>receiveResponses\<close>: whether the loop goes on,
  the handler and the bridge afterwards, the events, and the panic if there is one.\<close>

definition receive_iteration ::
  "(byte list \<Rightarrow> go_error + byte list) \<Rightarrow> receive_result \<Rightarrow> GeminiHandler \<Rightarrow>
   'w DefaultMediaBridge \<Rightarrow>
   bool \<times> GeminiHandler \<times> 'w DefaultMediaBridge \<times> handler_event list \<times> go_panic option" where
  "receive_iteration resample received g m =
     (if g_stopChan g then (False, g, m, [], None)
      else if sessionClosed g \<or> session g = None then (False, g, m, [], None)
      else
        (case received of
           ReceiveError err \<Rightarrow>
             (case removeFromBridge (markSessionClosed g) m of
                (m', evs) \<Rightarrow> (False, markSessionClosed g, m', SetSessionClosed # evs, None))
         | ReceiveRecovered \<Rightarrow> (False, g, m, [], Some NilPointerDereference)
         | Received message \<Rightarrow>
             (case handle_message resample message g of
                (evs, Some p) \<Rightarrow> (False, g, m, evs, Some p)
              | (evs, None) \<Rightarrow> (True, g, m, evs, None))))"

text \<open>Calls that reach a handler from outside, in any order: the bridge worker's
  writes, \<open>Start\<close> storing the connected session, the receive loop marking the
  session closed, and \<open>Close\<close>.\<close>

datatype handler_op =
    OpWrite write_env "byte list"
  | OpStart nat
  | OpMarkSessionClosed
  | OpClose bool "go_error option"

fun handler_step ::
  "handler_op \<Rightarrow> GeminiHandler \<times> 'w DefaultMediaBridge \<Rightarrow>
   (GeminiHandler \<times> 'w DefaultMediaBridge) \<times> handler_event list" where
  "handler_step (OpWrite env pcmData) (g, m) =
     (case Write env pcmData g of (result, g', evs) \<Rightarrow> ((g', m), evs))"
| "handler_step (OpStart sess) (g, m) = ((g\<lparr>session := Some sess\<rparr>, m), [])"
| "handler_step OpMarkSessionClosed (g, m) = ((markSessionClosed g, m), [SetSessionClosed])"
| "handler_step (OpClose loop_done close_result) (g, m) =
     (case Close loop_done close_result g m of (err, g', m', evs) \<Rightarrow> ((g', m'), evs))"

text \<open>A run lists, for every call, the handler before it, the call, and its events.\<close>

fun handler_run ::
  "handler_op list \<Rightarrow> GeminiHandler \<times> 'w DefaultMediaBridge \<Rightarrow>
   (GeminiHandler \<times> handler_op \<times> handler_event list) list"
where
  "handler_run [] s = []"
| "handler_run (op # ops) s =
     (case handler_step op s of (s', evs) \<Rightarrow> (fst s, op, evs) # handler_run ops s')"

fun is_hello :: "handler_event \<Rightarrow> bool" where
  "is_hello (SendClientContent sess text err) \<longleftrightarrow> text = ''Hello''"
| "is_hello ev \<longleftrightarrow> False"

text \<open>A write the handler accepts and forwards: non-empty, with a session present
  and the closed flag clear.\<close>

fun forwarded :: "GeminiHandler \<times> handler_op \<times> handler_event list \<Rightarrow> bool" where
  "forwarded (g, OpWrite env pcmData, evs) \<longleftrightarrow>
     session g \<noteq> None \<and> \<not> sessionClosed g \<and> pcmData \<noteq> []"
| "forwarded (g, op, evs) \<longleftrightarrow> False"

fun nonempty_write :: "GeminiHandler \<times> handler_op \<times> handler_event list \<Rightarrow> bool" where
  "nonempty_write (g, OpWrite env pcmData, evs) \<longleftrightarrow> pcmData \<noteq> []"
| "nonempty_write (g, op, evs) \<longleftrightarrow> False"

definition hello_sent :: "GeminiHandler \<times> handler_op \<times> handler_event list \<Rightarrow> bool" where
  "hello_sent r \<longleftrightarrow> (case r of (g, op, evs) \<Rightarrow> list_ex is_hello evs)"

definition has_flusher :: "(string \<rightharpoonup> 'w Participant) \<Rightarrow> string \<Rightarrow> bool" where
  "has_flusher snapshot i \<longleftrightarrow>
     (case snapshot i of None \<Rightarrow> False | Some p \<Rightarrow> FlushQueue p \<noteq> None)"

text \<open>A handler to evaluate the model on: connected, registered as \<open>D\<close>.\<close>

definition example_handler :: GeminiHandler where
  "example_handler =
     \<lparr>mediaBridge = True, participantID = ''D'', g_stopChan = False, cancel = True,
      ctx_cancelled = False, session = Some 1, sessionClosed = False,
      firstDataReceived = False\<rparr>"

definition example_env :: write_env where
  "example_env =
     \<lparr>hello_result = Some (ErrExternal ''unavailable''), resample_New = None,
      resampler_Write = None, resampler_Close = None, resampled = [9, 9],
      send_result = None\<rparr>"

definition example_ops :: "handler_op list" where
  "example_ops = [OpWrite example_env [1], OpStart 7, OpWrite example_env [],
                  OpWrite example_env [2], OpWrite example_env [3]]"

definition example_message :: LiveServerMessage where
  "example_message =
     \<lparr>ServerContent =
        Some \<lparr>ModelTurn = Some [\<lparr>InlineData = Some [5, 6]\<rparr>, \<lparr>InlineData = None\<rparr>],
              InputTranscription = None, OutputTranscription = None,
              TurnComplete = False, Interrupted = True\<rparr>,
      UsageMetadata = False\<rparr>"

section \<open>Properties of \<open>splitIntoChunks\<close>\<close>

lemma wrap64_id: "- (2^63) \<le> x \<Longrightarrow> x < 2^63 \<Longrightarrow> wrap64 x = x"
  unfolding wrap64_def by (simp add: signed_take_bit_int_eq_self)

lemma bytesPerChunk_le: "bytesPerChunk r d \<le> 2^63 div 1000"
proof -
  have "sint (r * 2 * d) < 2^63" using sint_lt[of "r * 2 * d"] by simp
  then show ?thesis unfolding bytesPerChunk_def signed_divide_int_def
    by (cases "sint (r * 2 * d) \<ge> 0") (auto simp: sgn_if zdiv_mono1 intro: order_trans)
qed

lemma bytesPerChunk_ge: "- (2^63) \<le> bytesPerChunk r d"
proof -
  have "- (2^63) \<le> sint (r * 2 * d)" using sint_ge[of "r * 2 * d"] by simp
  moreover have "\<bar>sint (r * 2 * d)\<bar> div 1000 \<le> \<bar>sint (r * 2 * d)\<bar>"
    by arith
  ultimately show ?thesis unfolding bytesPerChunk_def signed_divide_int_def
    by (cases "sint (r * 2 * d) \<ge> 0") (auto simp: sgn_if)
qed


lemma windows_Nil [simp]: "windows n [] = []"
  by (simp add: windows.simps)






lemma split_loop_step:
  assumes "1 \<le> bpc" "0 \<le> offset" "int (length audioData) + bpc \<le> 2^63"
    and lt: "offset < int (length audioData)"
  shows "split_loop audioData bpc offset chunks =
         split_loop audioData bpc (offset + bpc)
           (chunks @ [take (nat bpc) (drop (nat offset) audioData)])"
proof -
  let ?L = "int (length audioData)"
  have w: "wrap64 (offset + bpc) = offset + bpc"
    using assms by (intro wrap64_id) auto
  show ?thesis
  proof (cases "?L < offset + bpc")
    case True
    have w2: "wrap64 (?L - offset) = ?L - offset"
      using assms by (intro wrap64_id) auto
    have ord: "\<not> ?L - offset < 0" "\<not> offset < 0" "\<not> ?L < offset"
      using assms by auto
    have len: "length audioData - nat offset \<le> nat bpc"
      "length audioData - nat offset \<le> nat (?L - offset)"
      using True assms by auto
    show ?thesis
      by (subst split_loop.simps) (simp add: lt w True w2 ord len)
  next
    case False
    have w2: "wrap64 bpc = bpc"
      using assms by (intro wrap64_id) auto
    have ord: "\<not> bpc < 0" "\<not> offset < 0" "\<not> offset + bpc < offset"
      using assms by auto
    show ?thesis
      by (subst split_loop.simps) (simp add: lt w False w2 ord)
  qed
qed

lemma split_loop_windows:
  assumes "1 \<le> bpc" "0 \<le> offset" "int (length audioData) + bpc \<le> 2^63"
  shows "split_loop audioData bpc offset chunks =
         Some (Inr (chunks @ windows (nat bpc) (drop (nat offset) audioData)))"
  using assms(2)
proof (induction "length audioData - nat offset" arbitrary: offset chunks rule: less_induct)
  case less
  let ?L = "int (length audioData)"
  show ?case
  proof (cases "offset < ?L")
    case False
    then have "drop (nat offset) audioData = []" by simp
    then show ?thesis using False by (subst split_loop.simps) simp
  next
    case True
    have ne: "drop (nat offset) audioData \<noteq> []" using True less.prems by simp
    have dd: "drop (nat bpc) (drop (nat offset) audioData) = drop (nat (offset + bpc)) audioData"
      using less.prems assms(1) by (simp add: nat_add_distrib add.commute)
    have meas: "length audioData - nat (offset + bpc) < length audioData - nat offset"
      using True less.prems assms(1) by (auto simp: nat_add_distrib)
    have IH: "split_loop audioData bpc (offset + bpc) (chunks @ [take (nat bpc) (drop (nat offset) audioData)])
        = Some (Inr ((chunks @ [take (nat bpc) (drop (nat offset) audioData)]) @
              windows (nat bpc) (drop (nat (offset + bpc)) audioData)))"
      using less.prems assms(1) by (intro less.hyps[OF meas]) auto
    have "split_loop audioData bpc offset chunks =
       split_loop audioData bpc (offset + bpc) (chunks @ [take (nat bpc) (drop (nat offset) audioData)])"
      using assms(1) less.prems assms(3) True by (rule split_loop_step)
    also note IH
    also have "(chunks @ [take (nat bpc) (drop (nat offset) audioData)]) @
              windows (nat bpc) (drop (nat (offset + bpc)) audioData)
         = chunks @ windows (nat bpc) (drop (nat offset) audioData)"
      using ne assms(1) dd by (subst (2) windows.simps) simp
    finally show ?thesis .
  qed
qed

lemma split_loop_zero_diverges:
  assumes "split_loop audioData bpc offset chunks = Some y"
  shows "\<not> (bpc = 0 \<and> 0 \<le> offset \<and> offset < 2^63 \<and> offset < int (length audioData))"
proof (rule split_loop.raw_induct
    [where P = "\<lambda>xs b off cs r. \<not> (b = 0 \<and> 0 \<le> off \<and> off < 2^63 \<and> off < int (length xs))",
      OF _ assms], goal_cases)
  case (1 sl xs b off cs r)

  show ?case
  proof
    assume a: "b = 0 \<and> 0 \<le> off \<and> off < 2^63 \<and> off < int (length xs)"
    then have "wrap64 off = off" by (intro wrap64_id) auto
    with a have w: "wrap64 (off + b) = off" "wrap64 0 = 0"
      by (simp_all add: wrap64_def)
    from 1(2) a w have "sl xs b off (cs @ [take 0 (drop (nat off) xs)]) = Some r"
      by (simp split: if_splits)
    from 1(1)[OF this] a show False by simp
  qed
qed

lemma split_loop_negative_panics:
  assumes "bpc < 0" "- (2^63) \<le> bpc" "audioData \<noteq> []" "int (length audioData) < 2^63"
  shows "split_loop audioData bpc 0 chunks = Some (Inl MakeSliceLenOutOfRange)"
proof -
  have w: "wrap64 bpc = bpc" using assms by (intro wrap64_id) auto
  show ?thesis using assms w by (subst split_loop.simps) simp
qed


section \<open>Properties of the bridge\<close>

lemma map_filter_append: "List.map_filter f (xs @ ys) = List.map_filter f xs @ List.map_filter f ys"
  by (simp add: List.map_filter_def)

lemma written_ids_simps [simp]:
  "written_ids [] = []"
  "written_ids (xs @ ys) = written_ids xs @ written_ids ys"
  "written_ids (WriteCall i d e # xs) = i # written_ids xs"
  "written_ids (MuRLock # xs) = written_ids xs"
  "written_ids (MuRUnlock # xs) = written_ids xs"
  "written_ids (MuLock # xs) = written_ids xs"
  "written_ids (MuUnlock # xs) = written_ids xs"
  "written_ids (DeleteCall i # xs) = written_ids xs"
  "written_ids (FlushQueueCall i # xs) = written_ids xs"
  by (simp_all add: written_ids_def map_filter_simps map_filter_append)

lemma closed_ids_simps [simp]:
  "closed_ids [] = []"
  "closed_ids (xs @ ys) = closed_ids xs @ closed_ids ys"
  "closed_ids (WriteCall i d e # xs) = (if e = Some ErrClosedPipe then i # closed_ids xs else closed_ids xs)"
  by (simp_all add: closed_ids_def map_filter_simps map_filter_append)

lemma fanout_result:
  "fanout snap chunk ids w rem cnt tr = (w', rem', cnt', tr') \<Longrightarrow>
   \<exists>ws. tr' = tr @ ws \<and> rem' = rem @ closed_ids ws
        \<and> written_ids ws = filter (eligible snap chunk) ids
        \<and> (\<forall>ev \<in> set ws. is_write_of (Data chunk) ev)"
proof (induction ids arbitrary: w rem cnt tr)
  case Nil
  then show ?case by simp
next
  case (Cons i ids)
  show ?case
  proof (cases "eligible snap chunk i")
    case False
    then have "fanout snap chunk (i # ids) w rem cnt tr = fanout snap chunk ids w rem cnt tr"
      by (auto simp: eligible_def split: option.splits)
    with Cons.prems have "fanout snap chunk ids w rem cnt tr = (w', rem', cnt', tr')" by simp
    from Cons.IH[OF this] False show ?thesis by simp
  next
    case True
    then obtain p wr where p: "snap i = Some p" "i \<noteq> SenderID chunk" "Writer p = Some wr"
      by (auto simp: eligible_def split: option.splits)
    obtain n e w1 where r: "wr (Data chunk) w = ((n, e), w1)" by (metis surj_pair)
    let ?ev = "WriteCall i (Data chunk) e"
    let ?rem = "if e = Some ErrClosedPipe then rem @ [i] else rem"
    have "\<exists>c1. fanout snap chunk (i # ids) w rem cnt tr
          = fanout snap chunk ids w1 ?rem c1 (tr @ [?ev])"
    proof (cases e)
      case None
      then show ?thesis by (intro exI[of _ "cnt + 1"]) (simp add: p r)
    next
      case (Some a)
      then show ?thesis by (intro exI[of _ cnt]) (simp add: p r)
    qed
    then obtain c1 where "fanout snap chunk (i # ids) w rem cnt tr
          = fanout snap chunk ids w1 ?rem c1 (tr @ [?ev])" ..
    with Cons.prems have "fanout snap chunk ids w1 ?rem c1 (tr @ [?ev]) = (w', rem', cnt', tr')"
      by simp
    from Cons.IH[OF this] obtain ws where ws: "tr' = (tr @ [?ev]) @ ws"
      "rem' = ?rem @ closed_ids ws" "written_ids ws = filter (eligible snap chunk) ids"
      "\<forall>ev \<in> set ws. is_write_of (Data chunk) ev" by blast
    have "tr' = tr @ (?ev # ws)" using ws(1) by simp
    moreover have "rem' = rem @ closed_ids (?ev # ws)" using ws(2) by simp
    moreover have "written_ids (?ev # ws) = filter (eligible snap chunk) (i # ids)"
      using ws(3) True by simp
    moreover have "\<forall>ev \<in> set (?ev # ws). is_write_of (Data chunk) ev"
      using ws(4) by auto
    ultimately show ?thesis by blast
  qed
qed

lemma delete_all_apply: "delete_all ids ps i = (if i \<in> set ids then None else ps i)"
  unfolding delete_all_def by (induction ids arbitrary: ps) auto

lemma broadcastChunk_result:
  assumes "broadcastChunk order chunk m w = (m', w', tr)"
  shows "\<exists>ws. tr = [MuRLock, MuRUnlock] @ ws @
                 (if closed_ids ws = [] then []
                  else [MuLock] @ map DeleteCall (closed_ids ws) @ [MuUnlock])
        \<and> written_ids ws = filter (eligible (participants m) chunk) order
        \<and> (\<forall>ev \<in> set ws. is_write_of (Data chunk) ev)
        \<and> (\<forall>i. participants m' i = (if i \<in> set (closed_ids ws) then None else participants m i))
        \<and> chunkChan m' = chunkChan m \<and> stopChan m' = stopChan m"
proof -
  obtain w1 rem cnt ws0 where f: "fanout (participants m) chunk order w [] 0 [] = (w1, rem, cnt, ws0)"
    by (metis surj_pair)
  from fanout_result[OF f] obtain ws where ws: "ws0 = ws" "rem = closed_ids ws"
    "written_ids ws = filter (eligible (participants m) chunk) order"
    "\<forall>ev \<in> set ws. is_write_of (Data chunk) ev" by auto
  show ?thesis
  proof (cases "closed_ids ws = []")
    case True
    then have "m' = m" "tr = [MuRLock, MuRUnlock] @ ws"
      using assms f ws(1,2) by (auto simp: broadcastChunk_def)
    then show ?thesis using True ws by auto
  next
    case False
    then have "m' = m\<lparr>participants := delete_all (closed_ids ws) (participants m)\<rparr>"
      "tr = [MuRLock, MuRUnlock] @ ws @ [MuLock] @ map DeleteCall (closed_ids ws) @ [MuUnlock]"
      using assms f ws(1,2) by (auto simp: broadcastChunk_def)
    then show ?thesis using False ws by (auto simp: delete_all_apply)
  qed
qed

lemma flush_loop_result:
  "flush_loop snap ids w cnt tr = (w', cnt', tr') \<Longrightarrow>
   tr' = tr @ map FlushQueueCall
            (filter (\<lambda>i. \<exists>p. snap i = Some p \<and> FlushQueue p \<noteq> None) ids)
   \<and> cnt' = cnt + length (filter (\<lambda>i. \<exists>p. snap i = Some p \<and> FlushQueue p \<noteq> None) ids)"
proof (induction ids arbitrary: w cnt tr)
  case Nil
  then show ?case by simp
next
  case (Cons i ids)
  show ?case
  proof (cases "\<exists>p. snap i = Some p \<and> FlushQueue p \<noteq> None")
    case False
    then have "flush_loop snap (i # ids) w cnt tr = flush_loop snap ids w cnt tr"
      by (auto split: option.splits)
    with Cons.prems Cons.IH[of w cnt tr] False show ?thesis by simp
  next
    case True
    then obtain p fl where p: "snap i = Some p" "FlushQueue p = Some fl" by auto
    then have "flush_loop snap (i # ids) w cnt tr
        = flush_loop snap ids (fl w) (cnt + 1) (tr @ [FlushQueueCall i])" by simp
    with Cons.prems Cons.IH[of "fl w" "cnt + 1" "tr @ [FlushQueueCall i]"] True
    show ?thesis by simp
  qed
qed

lemma Broadcast_queue:
  "Broadcast pick chunk m = (e, m') \<Longrightarrow>
     participants m' = participants m \<and> stopChan m' = stopChan m \<and>
     (chunkChan m' = chunkChan m \<or> (e = None \<and> chunkChan m' = chunkChan m @ [chunk]))"
  by (auto simp: Broadcast_def split: if_splits select_case.splits)

lemma enqueued_simps [simp]:
  "enqueued [] = []"
  "enqueued (Enqueued c # obs) = c # enqueued obs"
  "enqueued (Dropped c # obs) = enqueued obs"
  "enqueued (Refused c # obs) = enqueued obs"
  "enqueued (Processed c tr # obs) = enqueued obs"
  "enqueued (WorkerExited # obs) = enqueued obs"
  "enqueued (WorkerWaiting # obs) = enqueued obs"
  "enqueued (Quiet # obs) = enqueued obs"
  by (simp_all add: enqueued_def)

lemma processed_simps [simp]:
  "processed [] = []"
  "processed (Enqueued c # obs) = processed obs"
  "processed (Dropped c # obs) = processed obs"
  "processed (Refused c # obs) = processed obs"
  "processed (Processed c tr # obs) = c # processed obs"
  "processed (WorkerExited # obs) = processed obs"
  "processed (WorkerWaiting # obs) = processed obs"
  "processed (Quiet # obs) = processed obs"
  by (simp_all add: processed_def)

lemma step_queue:
  assumes "step a s = (s', ob)"
  shows "chunkChan (bridge s) @ enqueued [ob] = processed [ob] @ chunkChan (bridge s')"
proof (cases a)
  case (DoBroadcast pick chunk)
  obtain e m' where b: "Broadcast pick chunk (bridge s) = (e, m')" by (metis surj_pair)
  from Broadcast_queue[OF b] b assms DoBroadcast show ?thesis
    by (cases e) (auto split: if_splits)
next
  case (DoWorker pick order)
  show ?thesis
  proof (cases "chunkChan (bridge s)")
    case Nil
    then show ?thesis using assms DoWorker
      by (auto simp: worker_iteration_def split: if_splits)
  next
    case (Cons c rest)
    show ?thesis
    proof (cases "worker_running s \<and> \<not> (stopChan (bridge s) \<and> pick \<noteq> RecvChunk)")
      case False
      then show ?thesis using assms DoWorker Cons
        by (auto simp: worker_iteration_def split: if_splits)
    next
      case True
      obtain m' w' tr where bc:
        "broadcastChunk order c ((bridge s)\<lparr>chunkChan := rest\<rparr>) (world s) = (m', w', tr)"
        by (metis surj_pair)
      from broadcastChunk_result[OF bc] have "chunkChan m' = rest" by auto
      then show ?thesis using assms DoWorker Cons True bc
        by (auto simp: worker_iteration_def)
    qed
  qed
next
  case (DoAddParticipant p)
  then show ?thesis using assms by (auto simp: AddParticipant_def)
next
  case (DoRemoveParticipant i)
  then show ?thesis using assms by (auto simp: RemoveParticipant_def)
next
  case DoCloseStopChan
  then show ?thesis using assms by auto
qed

lemma run_queue:
  "run acts s = (s', obs) \<Longrightarrow>
   chunkChan (bridge s) @ enqueued obs = processed obs @ chunkChan (bridge s')"
proof (induction acts arbitrary: s obs s')
  case Nil
  then show ?case by simp
next
  case (Cons a acts)
  obtain s1 ob where st: "step a s = (s1, ob)" by (metis surj_pair)
  obtain s2 obs2 where r: "run acts s1 = (s2, obs2)" by (metis surj_pair)
  from Cons.prems st r have eq: "s' = s2" "obs = ob # obs2" by auto
  have a: "chunkChan (bridge s) @ enqueued [ob] = processed [ob] @ chunkChan (bridge s1)"
    by (rule step_queue[OF st])
  have b: "chunkChan (bridge s1) @ enqueued obs2 = processed obs2 @ chunkChan (bridge s2)"
    by (rule Cons.IH[OF r])
  have e: "enqueued (ob # obs2) = enqueued [ob] @ enqueued obs2"
    "processed (ob # obs2) = processed [ob] @ processed obs2"
    by (simp_all add: enqueued_def processed_def map_filter_simps split: option.splits)
  have "chunkChan (bridge s) @ enqueued (ob # obs2)
        = (chunkChan (bridge s) @ enqueued [ob]) @ enqueued obs2" using e by simp
  also have "\<dots> = processed [ob] @ (chunkChan (bridge s1) @ enqueued obs2)" using a by simp
  also have "\<dots> = processed (ob # obs2) @ chunkChan (bridge s2)" using b e by simp
  finally show ?case using eq by simp
qed


lemma is_write_of_iff: "is_write_of d ev \<longleftrightarrow> (\<exists>i e. ev = WriteCall i d e)"
  by (cases ev) auto

lemma written_ids_all_writes:
  "\<forall>ev \<in> set ws. is_write_of d ev \<Longrightarrow> written_ids ws = map (\<lambda>ev. the (write_target ev)) ws"
  by (induction ws) (auto simp: is_write_of_iff)

lemma closed_ids_iff:
  "\<forall>ev \<in> set ws. is_write_of d ev \<Longrightarrow>
   i \<in> set (closed_ids ws) \<longleftrightarrow> WriteCall i d (Some ErrClosedPipe) \<in> set ws"
  by (induction ws) (auto simp: is_write_of_iff split: if_splits)

lemma written_ids_iff:
  "\<forall>ev \<in> set ws. is_write_of d ev \<Longrightarrow>
   i \<in> set (written_ids ws) \<longleftrightarrow> (\<exists>e. WriteCall i d e \<in> set ws)"
  by (induction ws) (auto simp: is_write_of_iff)

lemma one_write_per_target:
  assumes "\<forall>ev \<in> set ws. is_write_of d ev" "distinct (written_ids ws)"
    "WriteCall i d e \<in> set ws" "WriteCall i d e' \<in> set ws"
  shows "e = e'"
proof -
  have "inj_on (\<lambda>ev. the (write_target ev)) (set ws)"
    using assms(1,2) by (simp add: written_ids_all_writes distinct_map)
  from inj_onD[OF this _ assms(3,4)] show ?thesis by simp
qed

lemma count_list_distinct:
  "distinct xs \<Longrightarrow> count_list xs x = (if x \<in> set xs then 1 else 0)"
  by (induction xs) auto

lemma eligible_in_order:
  "range_order snap order \<Longrightarrow> eligible snap chunk i \<Longrightarrow> i \<in> set order"
  by (auto simp: range_order_def eligible_def split: option.splits)

lemma written_ids_outside_writes [simp]:
  "written_ids ([MuRLock, MuRUnlock] @ ws @ rest) = written_ids ws @ written_ids rest"
  "written_ids (map DeleteCall xs) = []"
  by (simp_all, induction xs, simp_all)

lemma Broadcast_cases:
  "Broadcast pick chunk m =
     (if stopChan m
      then (if length (chunkChan m) < chunkChan_cap \<and> pick = SendChunk
            then (None, m\<lparr>chunkChan := chunkChan m @ [chunk]\<rparr>)
            else (Some ErrClosedPipe, m))
      else (if length (chunkChan m) < chunkChan_cap
            then (None, m\<lparr>chunkChan := chunkChan m @ [chunk]\<rparr>)
            else (None, m)))"
  by (simp add: Broadcast_def split: select_case.splits)

lemma broadcast_parts_events:
  "broadcast_parts resample g parts = (evs, p) \<Longrightarrow>
     BridgeFlushQueues \<notin> set evs \<and> (mediaBridge g \<longrightarrow> p = None)"
proof (induction parts arbitrary: evs p)
  case Nil
  then show ?case by simp
next
  case (Cons part parts)
  then show ?case
    by (auto split: option.splits sum.splits if_splits prod.splits)
qed

lemma count_list_append: "count_list (xs @ ys) x = count_list xs x + count_list ys x"
  by (induction xs) auto

lemma has_flusher_iff:
  "has_flusher snap i \<longleftrightarrow> (\<exists>p. snap i = Some p \<and> FlushQueue p \<noteq> None)"
  by (auto simp: has_flusher_def split: option.splits)

lemma flushed_ids_calls [simp]:
  "flushed_ids (MuRLock # MuRUnlock # map FlushQueueCall xs) = xs"
  by (induction xs) (simp_all add: flushed_ids_def)

section \<open>Properties of the session handler\<close>

lemma Write_rejects:
  "session g = None \<or> sessionClosed g \<Longrightarrow> Write env pcmData g = ((0, Some ErrClosedPipe), g, [])"
  by (auto simp: Write_def split: option.splits)

lemma Write_empty:
  "session g \<noteq> None \<Longrightarrow> \<not> sessionClosed g \<Longrightarrow> Write env [] g = ((0, None), g, [])"
  by (auto simp: Write_def split: option.splits)

lemma Write_hello_independent:
  "fst (Write (env\<lparr>hello_result := e\<rparr>) pcmData g) = fst (Write env pcmData g)"
  by (auto simp: Write_def split: option.splits)

lemma Write_events:
  assumes "Write env pcmData g = (res, g', evs)"
  shows "list_ex is_hello evs \<longleftrightarrow>
           (session g \<noteq> None \<and> \<not> sessionClosed g \<and> pcmData \<noteq> [] \<and> \<not> firstDataReceived g)"
    and "length (filter is_hello evs) = (if list_ex is_hello evs then 1 else 0)"
    and "firstDataReceived g' \<longleftrightarrow>
           firstDataReceived g \<or> (session g \<noteq> None \<and> \<not> sessionClosed g \<and> pcmData \<noteq> [])"
  using assms by (auto simp: Write_def split: option.splits if_splits)

lemma Close_eq:
  "Close d r g m =
     (None,
      g\<lparr>sessionClosed := True, g_stopChan := True, session := None,
        ctx_cancelled := (cancel g \<or> ctx_cancelled g)\<rparr>,
      (if mediaBridge g then snd (RemoveParticipant (participantID g) m) else m),
      [SetSessionClosed] @ (if g_stopChan g then [] else [CloseStopChan])
        @ [WaitReceiveLoop d]
        @ (case session g of Some sess \<Rightarrow> [SessionClose sess r] | None \<Rightarrow> [])
        @ (if cancel g then [CancelContext] else [])
        @ (if mediaBridge g then [BridgeRemoveParticipant (participantID g)] else []))"
  by (cases g) (simp add: Close_def Let_def markSessionClosed_def)

lemma Close_events:
  assumes "Close d r g m = (e, g', m', evs)"
  shows "filter is_hello evs = []" "firstDataReceived g' = firstDataReceived g"
  using assms unfolding Close_eq by (auto split: option.splits)

lemma handler_step_hello:
  assumes "handler_step op (g, m) = ((g', m'), evs)"
  shows "hello_sent (g, op, evs) \<longleftrightarrow> \<not> firstDataReceived g \<and> forwarded (g, op, evs)"
    and "length (filter is_hello evs) = (if hello_sent (g, op, evs) then 1 else 0)"
    and "firstDataReceived g' \<longleftrightarrow> firstDataReceived g \<or> forwarded (g, op, evs)"
proof -
  have "(hello_sent (g, op, evs) \<longleftrightarrow> \<not> firstDataReceived g \<and> forwarded (g, op, evs))
      \<and> length (filter is_hello evs) = (if hello_sent (g, op, evs) then 1 else 0)
      \<and> (firstDataReceived g' \<longleftrightarrow> firstDataReceived g \<or> forwarded (g, op, evs))"
  proof (cases op)
    case (OpWrite env d)
    then obtain res where w: "Write env d g = (res, g', evs)"
      using assms by (auto split: prod.splits)
    from Write_events[OF w] OpWrite show ?thesis by (auto simp: hello_sent_def)
  next
    case (OpStart x)
    then show ?thesis using assms by (auto simp: hello_sent_def)
  next
    case OpMarkSessionClosed
    then show ?thesis using assms by (auto simp: hello_sent_def markSessionClosed_def)
  next
    case (OpClose d r)
    then obtain e where c: "Close d r g m = (e, g', m', evs)"
      using assms by (auto split: prod.splits)
    from Close_events[OF c] OpClose show ?thesis
      by (auto simp: hello_sent_def list_ex_iff filter_empty_conv)
  qed
  then show "hello_sent (g, op, evs) \<longleftrightarrow> \<not> firstDataReceived g \<and> forwarded (g, op, evs)"
    and "length (filter is_hello evs) = (if hello_sent (g, op, evs) then 1 else 0)"
    and "firstDataReceived g' \<longleftrightarrow> firstDataReceived g \<or> forwarded (g, op, evs)"
    by blast+
qed

lemma handler_run_length [simp]: "length (handler_run ops s) = length ops"
  by (induction ops arbitrary: s) (auto split: prod.splits)

lemma handler_run_hello:
  "k < length ops \<Longrightarrow>
   hello_sent (handler_run ops (g, m) ! k) \<longleftrightarrow>
     \<not> firstDataReceived g \<and> forwarded (handler_run ops (g, m) ! k)
     \<and> (\<forall>j<k. \<not> forwarded (handler_run ops (g, m) ! j))"
proof (induction ops arbitrary: g m k)
  case Nil
  then show ?case by simp
next
  case (Cons op ops)
  obtain g' m' evs where st: "handler_step op (g, m) = ((g', m'), evs)"
    by (metis surj_pair)
  have run: "handler_run (op # ops) (g, m) = (g, op, evs) # handler_run ops (g', m')"
    using st by simp
  note h = handler_step_hello[OF st]
  show ?case
  proof (cases k)
    case 0
    then show ?thesis unfolding run using h(1) by simp
  next
    case (Suc k')
    then have k': "k' < length ops" using Cons.prems by simp
    have all: "(\<forall>j<Suc k'. \<not> forwarded (((g, op, evs) # handler_run ops (g', m')) ! j))
        \<longleftrightarrow> \<not> forwarded (g, op, evs) \<and> (\<forall>j<k'. \<not> forwarded (handler_run ops (g', m') ! j))"
      by (auto simp: less_Suc_eq_0_disj)
    show ?thesis unfolding run Suc using Cons.IH[OF k', of g' m'] h(3) all by auto
  qed
qed

lemma handler_run_hello_total:
  "length (filter is_hello (concat (map (\<lambda>r. snd (snd r)) (handler_run ops (g, m)))))
     \<le> (if firstDataReceived g then 0 else 1)"
proof (induction ops arbitrary: g m)
  case Nil
  then show ?case by simp
next
  case (Cons op ops)
  obtain g' m' evs where st: "handler_step op (g, m) = ((g', m'), evs)"
    by (metis surj_pair)
  note h = handler_step_hello[OF st]
  have "length (filter is_hello (concat (map (\<lambda>r. snd (snd r)) (handler_run (op # ops) (g, m)))))
      = length (filter is_hello evs)
        + length (filter is_hello (concat (map (\<lambda>r. snd (snd r)) (handler_run ops (g', m')))))"
    using st by simp
  also have "\<dots> \<le> (if hello_sent (g, op, evs) then 1 else 0)
                    + (if firstDataReceived g' then 0 else 1)"
    using h(2) Cons.IH[of g' m'] by simp
  also have "\<dots> \<le> (if firstDataReceived g then 0 else 1)"
    using h(1,3) by auto
  finally show ?case .
qed

lemma RemoveParticipant_absent:
  "participants m i = None \<Longrightarrow> RemoveParticipant i m = (None, m)"
  by (simp add: RemoveParticipant_def)

lemma RemoveParticipant_removes:
  "participants (snd (RemoveParticipant i m)) = (participants m)(i := None)"
  by (auto simp: RemoveParticipant_def)


section \<open>Claims about the AudioTranscoder\<close>



text \<open>C10 as stated fails: with a negative chunk size the first iteration stops the
  call with a run-time panic (\<open>make\<close> with a negative length), so the call ends although
  the buffer is non-empty and the chunk size is below 1.\<close>

theorem splitIntoChunks_terminates_iff_counterexample:
  "splitIntoChunks [0] (- 8000) 20 = Some (Inl MakeSliceLenOutOfRange)
   \<and> [0 :: byte] \<noteq> [] \<and> \<not> 1 \<le> bytesPerChunk (- 8000) 20"
  by (simp add: splitIntoChunks_def bytesPerChunk_def split_loop.simps wrap64_def signed_divide_int_def)

text \<open>C10, amended. \<open>splitIntoChunks\<close> returns a result exactly when the buffer is
  empty or the computed chunk size is at least 1. For a non-empty buffer with chunk
  size 0 the loop never advances and the call never ends; for a non-empty buffer
  with a negative chunk size the call ends at once with a run-time panic.\<close>

theorem splitIntoChunks_outcomes:
  assumes L: "length audioData \<le> 2^62"
  shows "((\<exists>chunks. splitIntoChunks audioData sampleRate chunkDurationMs = Some (Inr chunks))
            \<longleftrightarrow> (audioData = [] \<or> 1 \<le> bytesPerChunk sampleRate chunkDurationMs))
    \<and> (audioData \<noteq> [] \<and> bytesPerChunk sampleRate chunkDurationMs = 0
          \<longrightarrow> splitIntoChunks audioData sampleRate chunkDurationMs = None)
    \<and> (audioData \<noteq> [] \<and> bytesPerChunk sampleRate chunkDurationMs < 0
          \<longrightarrow> splitIntoChunks audioData sampleRate chunkDurationMs
                = Some (Inl MakeSliceLenOutOfRange))"
proof -
  let ?S = "bytesPerChunk sampleRate chunkDurationMs"
  let ?r = "splitIntoChunks audioData sampleRate chunkDurationMs"
  have Li: "int (length audioData) \<le> 2^62" using L by (metis of_nat_le_iff of_nat_numeral of_nat_power)
  have empty: "?r = Some (Inr [])" if "audioData = []"
    unfolding splitIntoChunks_def using that by (subst split_loop.simps) simp
  have pos: "?r = Some (Inr (windows (nat ?S) audioData))" if "1 \<le> ?S"
  proof -
    have fit: "int (length audioData) + ?S \<le> 2^63"
      using Li bytesPerChunk_le[of sampleRate chunkDurationMs] by simp
    show ?thesis
      unfolding splitIntoChunks_def using split_loop_windows[OF that _ fit, of 0 "[]"] by simp
  qed
  have zero: "?r = None" if "audioData \<noteq> []" "?S = 0"
  proof (cases ?r)
    case None
    then show ?thesis .
  next
    case (Some y)
    then have "split_loop audioData ?S 0 [] = Some y" by (simp add: splitIntoChunks_def)
    from split_loop_zero_diverges[OF this] that show ?thesis by simp
  qed
  have neg: "?r = Some (Inl MakeSliceLenOutOfRange)" if "audioData \<noteq> []" "?S < 0"
    unfolding splitIntoChunks_def
    using that Li bytesPerChunk_ge[of sampleRate chunkDurationMs]
    by (intro split_loop_negative_panics) auto
  have iff: "(\<exists>chunks. ?r = Some (Inr chunks)) \<longleftrightarrow> (audioData = [] \<or> 1 \<le> ?S)"
  proof
    assume "\<exists>chunks. ?r = Some (Inr chunks)"
    then obtain chunks where r: "?r = Some (Inr chunks)" ..
    show "audioData = [] \<or> 1 \<le> ?S"
    proof (rule ccontr)
      assume "\<not> (audioData = [] \<or> 1 \<le> ?S)"
      then have ne: "audioData \<noteq> []" and "?S = 0 \<or> ?S < 0" by auto
      then show False using zero[OF ne] neg[OF ne] r by auto
    qed
  next
    assume "audioData = [] \<or> 1 \<le> ?S"
    then show "\<exists>chunks. ?r = Some (Inr chunks)" using empty pos by blast
  qed
  show ?thesis using iff zero neg by blast
qed

text \<open>The three outcomes on a one-byte buffer.\<close>

theorem splitIntoChunks_outcomes_witness:
  "splitIntoChunks [7] 1 1 = None
   \<and> splitIntoChunks [7] (- 1000) 1 = Some (Inl MakeSliceLenOutOfRange)
   \<and> (\<exists>chunks. splitIntoChunks [7] 1000 1 = Some (Inr chunks))"
proof -
  have S: "bytesPerChunk 1 1 = 0" "bytesPerChunk (- 1000) 1 = - 2" "bytesPerChunk 1000 1 = 2"
    by (simp_all add: bytesPerChunk_def signed_divide_int_def)
  show ?thesis
    using splitIntoChunks_outcomes[of "[7]" 1 1] splitIntoChunks_outcomes[of "[7]" "- 1000" 1]
      splitIntoChunks_outcomes[of "[7]" 1000 1]
    unfolding S by simp
qed

text \<open>C8. A codec other than PCMU and PCMA makes \<open>decodeG711\<close> and \<open>encodeG711\<close>
  return the empty byte slice, not an error. \<open>extractRTPPayload\<close> returns an error for
  every packet the RTP parser rejects, and for a parsed packet with an empty payload it
  returns no error and the payload type, sequence number and timestamp.\<close>

theorem unsupported_codec_and_extract:
  "(codec \<noteq> ''PCMU'' \<and> codec \<noteq> ''PCMA'' \<longrightarrow>
       decodeG711 lib payload codec = [] \<and> encodeG711 lib pcm codec = [])
   \<and> (\<forall>err. Unmarshal packet = Inl err \<longrightarrow>
         extractRTPPayload Unmarshal packet = Inl (Errorf ''failed to unmarshal RTP packet'' err))
   \<and> (\<forall>p. Unmarshal packet = Inr p \<and> Payload p = [] \<longrightarrow>
         extractRTPPayload Unmarshal packet
           = Inr (PayloadType p, None, SequenceNumber p, Timestamp p))"
  by (simp add: decodeG711_def encodeG711_def extractRTPPayload_def)

text \<open>The theorem at an unknown codec, a rejected packet and a packet without payload.\<close>

theorem unsupported_codec_and_extract_witness:
  "decodeG711 \<lparr>DecodeUlaw = id, DecodeAlaw = id, EncodeUlaw = id, EncodeAlaw = id\<rparr>
       [1, 2] ''G722'' = []
   \<and> encodeG711 \<lparr>DecodeUlaw = id, DecodeAlaw = id, EncodeUlaw = id, EncodeAlaw = id\<rparr>
       [3, 4] ''G722'' = []
   \<and> extractRTPPayload (\<lambda>b. Inl (ErrExternal ''short'')) [128]
       = Inl (Errorf ''failed to unmarshal RTP packet'' (ErrExternal ''short''))
   \<and> extractRTPPayload
        (\<lambda>b. Inr \<lparr>PayloadType = 0, SequenceNumber = 7, Timestamp = 160, Payload = []\<rparr>)
        [128, 0, 0, 7, 0, 0, 0, 160, 0, 0, 0, 1]
       = Inr (0, None, 7, 160)"
  using unsupported_codec_and_extract
      [where codec = "''G722''" and payload = "[1, 2]" and pcm = "[3, 4]"
         and lib = "\<lparr>DecodeUlaw = id, DecodeAlaw = id, EncodeUlaw = id, EncodeAlaw = id\<rparr>"
         and Unmarshal = "\<lambda>b. Inl (ErrExternal ''short'')" and packet = "[128]"]
    unsupported_codec_and_extract
      [where codec = "''G722''" and payload = "[1, 2]" and pcm = "[3, 4]"
         and lib = "\<lparr>DecodeUlaw = id, DecodeAlaw = id, EncodeUlaw = id, EncodeAlaw = id\<rparr>"
         and Unmarshal = "\<lambda>b. Inr \<lparr>PayloadType = 0, SequenceNumber = 7, Timestamp = 160,
                                    Payload = []\<rparr>"
         and packet = "[128, 0, 0, 7, 0, 0, 0, 160, 0, 0, 0, 1]"]
  by simp

section \<open>Claims about the bridge\<close>

text \<open>C1. \<open>Broadcast\<close> never blocks: it is a \<open>select\<close> with a \<open>default\<close>, and the model gives
  a result in every state (\<open>Broadcast_cases\<close>). On a bridge that is not stopped it
  enqueues when there is room, and with 200 chunks queued it drops the incoming chunk,
  leaves the queue as it is and returns success. On a stopped bridge whose queue has
  room, both the send and the receive from \<open>stopChan\<close> can proceed, and the runtime
  may pick the send: the call then returns success and enqueues, where the contract
  asks for the closed error.\<close>

theorem Broadcast_on_stopped_bridge_enqueues:
  "Broadcast SendChunk example_chunk (example_bridge\<lparr>stopChan := True\<rparr>)
     = (None, example_bridge\<lparr>stopChan := True, chunkChan := [example_chunk]\<rparr>)"
  by (simp add: Broadcast_def example_bridge_def chunkChan_cap_def)

text \<open>C2 as stated fails: a registered participant that is not the sender but whose
  \<open>Writer()\<close> is \<open>nil\<close> is skipped by the \<open>writer != nil\<close> guard and is written
  nothing.\<close>

theorem fanout_nil_writer_counterexample:
  "broadcastChunk [''E''] example_chunk
       (example_bridge\<lparr>participants :=
          [''E'' \<mapsto> \<lparr>ID = ''E'', Writer = None, FlushQueue = None\<rparr>]\<rparr>) 0
     = (example_bridge\<lparr>participants :=
          [''E'' \<mapsto> \<lparr>ID = ''E'', Writer = None, FlushQueue = None\<rparr>]\<rparr>, 0,
        [MuRLock, MuRUnlock])
   \<and> range_order [''E'' \<mapsto> \<lparr>ID = ''E'', Writer = None :: nat io_Writer option,
                                FlushQueue = None\<rparr>] [''E'']
   \<and> ''E'' \<noteq> SenderID example_chunk
   \<and> written_ids [MuRLock, MuRUnlock] = []"
  by (simp add: broadcastChunk_def example_bridge_def example_chunk_def range_order_def)

text \<open>C2, amended. For every chunk the worker takes, it is the oldest chunk of the
  queue; the participant registered under the chunk's sender id is never written to;
  every other participant of the snapshot that has a writer is written exactly once,
  and a participant without a writer is not written; every write carries the chunk's
  bytes. Over any interleaving of calls and worker iterations, the chunks the worker
  has processed, followed by the chunks still queued, are the chunks that were queued
  at the start followed by the chunks \<open>Broadcast\<close> enqueued, in that order.\<close>

theorem worker_fanout_and_fifo:
  "(worker_iteration pick order s = (s', Processed chunk tr)
      \<and> range_order (participants (bridge s)) order \<longrightarrow>
        chunkChan (bridge s) = chunk # chunkChan (bridge s')
      \<and> SenderID chunk \<notin> set (written_ids tr)
      \<and> (\<forall>i. count_list (written_ids tr) i
               = (if eligible (participants (bridge s)) chunk i then 1 else 0))
      \<and> (\<forall>ev \<in> set tr. write_target ev \<noteq> None \<longrightarrow> write_data ev = Some (Data chunk)))
   \<and> (run acts s0 = (s1, obs) \<longrightarrow>
        chunkChan (bridge s0) @ enqueued obs = processed obs @ chunkChan (bridge s1))"
proof (intro conjI impI)
  assume "run acts s0 = (s1, obs)"
  then show "chunkChan (bridge s0) @ enqueued obs = processed obs @ chunkChan (bridge s1)"
    by (rule run_queue)
next
  assume a: "worker_iteration pick order s = (s', Processed chunk tr)
      \<and> range_order (participants (bridge s)) order"
  let ?P = "participants (bridge s)"
  from a obtain rest where q: "chunkChan (bridge s) = chunk # rest"
    by (cases "chunkChan (bridge s)") (auto simp: worker_iteration_def split: if_splits prod.splits)
  let ?m = "(bridge s)\<lparr>chunkChan := rest\<rparr>"
  from a q obtain m' w' where bc: "broadcastChunk order chunk ?m (world s) = (m', w', tr)"
    and s': "s' = s\<lparr>bridge := m', world := w'\<rparr>"
    by (auto simp: worker_iteration_def split: if_splits prod.splits)
  from broadcastChunk_result[OF bc] obtain ws where ws:
    "tr = [MuRLock, MuRUnlock] @ ws @
            (if closed_ids ws = [] then []
             else [MuLock] @ map DeleteCall (closed_ids ws) @ [MuUnlock])"
    "written_ids ws = filter (eligible ?P chunk) order"
    "\<forall>ev \<in> set ws. is_write_of (Data chunk) ev"
    "chunkChan m' = rest" by auto
  have wi: "written_ids tr = filter (eligible ?P chunk) order"
    unfolding ws(1) using ws(2) by simp
  have d: "distinct order" using a by (simp add: range_order_def)
  show "chunkChan (bridge s) = chunk # chunkChan (bridge s')" using q s' ws(4) by simp
  show "SenderID chunk \<notin> set (written_ids tr)"
    unfolding wi by (auto simp: eligible_def split: option.splits)
  show "\<forall>i. count_list (written_ids tr) i = (if eligible ?P chunk i then 1 else 0)"
    unfolding wi using d eligible_in_order[of ?P order chunk] a
    by (auto simp: count_list_distinct)
  show "\<forall>ev \<in> set tr. write_target ev \<noteq> None \<longrightarrow> write_data ev = Some (Data chunk)"
  proof (intro ballI impI)
    fix ev assume "ev \<in> set tr" "write_target ev \<noteq> None"
    then have "ev \<in> set ws" unfolding ws(1) by (auto split: if_splits)
    with ws(3) show "write_data ev = Some (Data chunk)" by (auto simp: is_write_of_iff)
  qed
qed

text \<open>The theorem at the example bridge: one worker iteration, and a run of two
  broadcasts and two iterations.\<close>

theorem worker_fanout_and_fifo_witness:
  "worker_iteration RecvChunk example_order
      \<lparr>bridge = example_bridge\<lparr>chunkChan := [example_chunk]\<rparr>, world = 0, worker_running = True\<rparr>
     = (\<lparr>bridge = example_bridge\<lparr>participants := example_registry(''B'' := None)\<rparr>,
         world = 3, worker_running = True\<rparr>,
        Processed example_chunk
          [MuRLock, MuRUnlock, WriteCall ''D'' [1, 2, 3] None,
           WriteCall ''B'' [1, 2, 3] (Some ErrClosedPipe),
           WriteCall ''C'' [1, 2, 3] (Some (ErrExternal ''timeout'')),
           MuLock, DeleteCall ''B'', MuUnlock])
   \<and> range_order (participants example_bridge) example_order
   \<and> written_ids
        [MuRLock, MuRUnlock, WriteCall ''D'' [1, 2, 3] None,
         WriteCall ''B'' [1, 2, 3] (Some ErrClosedPipe),
         WriteCall ''C'' [1, 2, 3] (Some (ErrExternal ''timeout'')),
         MuLock, DeleteCall ''B'', MuUnlock] = [''D'', ''B'', ''C'']
   \<and> processed (snd (run [DoBroadcast SendChunk example_chunk,
                          DoBroadcast SendChunk (example_chunk\<lparr>Data := [4]\<rparr>),
                          DoWorker RecvChunk example_order, DoWorker RecvChunk example_order]
                     \<lparr>bridge = example_bridge, world = 0, worker_running = True\<rparr>))
     = [example_chunk, example_chunk\<lparr>Data := [4]\<rparr>]"
proof -
  have h1: "worker_iteration RecvChunk example_order
      \<lparr>bridge = example_bridge\<lparr>chunkChan := [example_chunk]\<rparr>, world = 0, worker_running = True\<rparr>
     = (\<lparr>bridge = example_bridge\<lparr>participants := example_registry(''B'' := None)\<rparr>,
         world = 3, worker_running = True\<rparr>,
        Processed example_chunk
          [MuRLock, MuRUnlock, WriteCall ''D'' [1, 2, 3] None,
           WriteCall ''B'' [1, 2, 3] (Some ErrClosedPipe),
           WriteCall ''C'' [1, 2, 3] (Some (ErrExternal ''timeout'')),
           MuLock, DeleteCall ''B'', MuUnlock])"
    by (simp add: worker_iteration_def broadcastChunk_def example_bridge_def
        example_registry_def example_order_def example_chunk_def sink_ok_def sink_closed_def
        sink_failing_def delete_all_def)
  have h2: "range_order (participants example_bridge) example_order"
    by (auto simp: range_order_def example_bridge_def example_registry_def example_order_def)
  have h3: "run [DoBroadcast SendChunk example_chunk,
                 DoBroadcast SendChunk (example_chunk\<lparr>Data := [4]\<rparr>),
                 DoWorker RecvChunk example_order, DoWorker RecvChunk example_order]
              \<lparr>bridge = example_bridge, world = 0, worker_running = True\<rparr>
            = (fst (run [DoBroadcast SendChunk example_chunk,
                 DoBroadcast SendChunk (example_chunk\<lparr>Data := [4]\<rparr>),
                 DoWorker RecvChunk example_order, DoWorker RecvChunk example_order]
              \<lparr>bridge = example_bridge, world = 0, worker_running = True\<rparr>),
               snd (run [DoBroadcast SendChunk example_chunk,
                 DoBroadcast SendChunk (example_chunk\<lparr>Data := [4]\<rparr>),
                 DoWorker RecvChunk example_order, DoWorker RecvChunk example_order]
              \<lparr>bridge = example_bridge, world = 0, worker_running = True\<rparr>))"
    by simp
  have h4: "processed (snd (run [DoBroadcast SendChunk example_chunk,
                          DoBroadcast SendChunk (example_chunk\<lparr>Data := [4]\<rparr>),
                          DoWorker RecvChunk example_order, DoWorker RecvChunk example_order]
                     \<lparr>bridge = example_bridge, world = 0, worker_running = True\<rparr>))
     = [example_chunk, example_chunk\<lparr>Data := [4]\<rparr>]"
    by (simp add: worker_iteration_def broadcastChunk_def example_bridge_def Broadcast_def
        chunkChan_cap_def example_registry_def example_order_def example_chunk_def sink_ok_def
        sink_closed_def sink_failing_def delete_all_def)
  from worker_fanout_and_fifo
    [where pick = RecvChunk and order = example_order and chunk = example_chunk
       and s = "\<lparr>bridge = example_bridge\<lparr>chunkChan := [example_chunk]\<rparr>, world = 0,
                 worker_running = True\<rparr>"
       and s' = "\<lparr>bridge = example_bridge\<lparr>participants := example_registry(''B'' := None)\<rparr>,
                  world = 3, worker_running = True\<rparr>"
       and tr = "[MuRLock, MuRUnlock, WriteCall ''D'' [1, 2, 3] None,
                  WriteCall ''B'' [1, 2, 3] (Some ErrClosedPipe),
                  WriteCall ''C'' [1, 2, 3] (Some (ErrExternal ''timeout'')),
                  MuLock, DeleteCall ''B'', MuUnlock]"
       and acts = "[DoBroadcast SendChunk example_chunk,
                    DoBroadcast SendChunk (example_chunk\<lparr>Data := [4]\<rparr>),
                    DoWorker RecvChunk example_order, DoWorker RecvChunk example_order]"
       and ?s0.0 = "\<lparr>bridge = example_bridge, world = 0, worker_running = True\<rparr>"]
    h1 h2 h3 h4
  show ?thesis by simp
qed

text \<open>C3. The events of one fan-out are the snapshot under the read lock, then one
  write per eligible participant whatever the earlier writes returned, then, only if
  some write returned \<open>ErrClosedPipe\<close>, one block under the exclusive lock that deletes
  exactly those participants. A participant whose write failed with another error is
  still registered afterwards.\<close>

theorem fanout_write_failures:
  assumes "range_order (participants m) order"
    and "broadcastChunk order chunk m w = (m', w', tr)"
  shows "\<exists>ws. tr = [MuRLock, MuRUnlock] @ ws @
                 (if closed_ids ws = [] then []
                  else [MuLock] @ map DeleteCall (closed_ids ws) @ [MuUnlock])
     \<and> (\<forall>ev \<in> set ws. is_write_of (Data chunk) ev)
     \<and> (\<forall>i. eligible (participants m) chunk i \<longrightarrow> i \<in> set (written_ids ws))
     \<and> (\<forall>i. participants m' i = (if i \<in> set (closed_ids ws) then None else participants m i))
     \<and> (\<forall>i. WriteCall i (Data chunk) (Some ErrClosedPipe) \<in> set ws \<longrightarrow>
             i \<in> set (closed_ids ws) \<and> participants m' i = None)
     \<and> (\<forall>i e. WriteCall i (Data chunk) (Some e) \<in> set ws \<and> e \<noteq> ErrClosedPipe \<longrightarrow>
             i \<notin> set (closed_ids ws) \<and> participants m' i = participants m i)"
proof -
  let ?P = "participants m"
  from broadcastChunk_result[OF assms(2)] obtain ws where ws:
    "tr = [MuRLock, MuRUnlock] @ ws @
            (if closed_ids ws = [] then []
             else [MuLock] @ map DeleteCall (closed_ids ws) @ [MuUnlock])"
    "written_ids ws = filter (eligible ?P chunk) order"
    "\<forall>ev \<in> set ws. is_write_of (Data chunk) ev"
    "\<forall>i. participants m' i = (if i \<in> set (closed_ids ws) then None else ?P i)" by blast
  have d: "distinct (written_ids ws)" using assms(1) ws(2) by (simp add: range_order_def)
  have el: "\<forall>i. eligible ?P chunk i \<longrightarrow> i \<in> set (written_ids ws)"
    using ws(2) eligible_in_order[OF assms(1)] by auto
  have cl: "\<forall>i. WriteCall i (Data chunk) (Some ErrClosedPipe) \<in> set ws \<longrightarrow>
             i \<in> set (closed_ids ws) \<and> participants m' i = None"
    using ws(4) closed_ids_iff[OF ws(3)] by auto
  have ot: "\<forall>i e. WriteCall i (Data chunk) (Some e) \<in> set ws \<and> e \<noteq> ErrClosedPipe \<longrightarrow>
             i \<notin> set (closed_ids ws) \<and> participants m' i = participants m i"
  proof (intro allI impI)
    fix i e assume a: "WriteCall i (Data chunk) (Some e) \<in> set ws \<and> e \<noteq> ErrClosedPipe"
    have "i \<notin> set (closed_ids ws)"
    proof
      assume "i \<in> set (closed_ids ws)"
      then have "WriteCall i (Data chunk) (Some ErrClosedPipe) \<in> set ws"
        using closed_ids_iff[OF ws(3)] by simp
      from one_write_per_target[OF ws(3) d _ this, of "Some e"] a show False by simp
    qed
    then show "i \<notin> set (closed_ids ws) \<and> participants m' i = participants m i"
      using ws(4) by simp
  qed
  show ?thesis using ws(1) ws(3) ws(4) el cl ot by blast
qed

text \<open>The theorem at the example bridge, where \<open>B\<close>'s sink is closed and \<open>C\<close>'s
  fails with another error.\<close>

theorem fanout_write_failures_witness:
  "range_order (participants example_bridge) example_order
   \<and> broadcastChunk example_order example_chunk example_bridge 0
     = (example_bridge\<lparr>participants := example_registry(''B'' := None)\<rparr>, 3,
        [MuRLock, MuRUnlock, WriteCall ''D'' [1, 2, 3] None,
         WriteCall ''B'' [1, 2, 3] (Some ErrClosedPipe),
         WriteCall ''C'' [1, 2, 3] (Some (ErrExternal ''timeout'')),
         MuLock, DeleteCall ''B'', MuUnlock])
   \<and> participants (example_bridge\<lparr>participants := example_registry(''B'' := None)\<rparr>) ''B'' = None
   \<and> participants (example_bridge\<lparr>participants := example_registry(''B'' := None)\<rparr>) ''C''
       = example_registry ''C''"
proof -
  have h1: "range_order (participants example_bridge) example_order"
    by (auto simp: range_order_def example_bridge_def example_registry_def example_order_def)
  have h2: "broadcastChunk example_order example_chunk example_bridge 0
     = (example_bridge\<lparr>participants := example_registry(''B'' := None)\<rparr>, 3,
        [MuRLock, MuRUnlock, WriteCall ''D'' [1, 2, 3] None,
         WriteCall ''B'' [1, 2, 3] (Some ErrClosedPipe),
         WriteCall ''C'' [1, 2, 3] (Some (ErrExternal ''timeout'')),
         MuLock, DeleteCall ''B'', MuUnlock])"
    by (simp add: broadcastChunk_def example_bridge_def example_registry_def example_order_def
        example_chunk_def sink_ok_def sink_closed_def sink_failing_def delete_all_def)
  from fanout_write_failures[OF h1 h2] h1 h2 show ?thesis by simp
qed

section \<open>Claims about the session handler\<close>

text \<open>C4 as stated fails: a non-empty write that arrives before the session is
  connected is rejected and sends no "Hello"; the turn is sent on a later non-empty
  write, the first one the handler accepts.\<close>

theorem hello_on_first_nonempty_write_counterexample:
  "nonempty_write (handler_run example_ops (example_handler\<lparr>session := None\<rparr>, example_bridge) ! 0)
   \<and> \<not> hello_sent (handler_run example_ops (example_handler\<lparr>session := None\<rparr>, example_bridge) ! 0)
   \<and> nonempty_write (handler_run example_ops (example_handler\<lparr>session := None\<rparr>, example_bridge) ! 3)
   \<and> hello_sent (handler_run example_ops (example_handler\<lparr>session := None\<rparr>, example_bridge) ! 3)"
  by (simp add: example_ops_def example_handler_def example_env_def Write_def hello_sent_def)

text \<open>C4, amended. \<open>Write\<close> returns \<open>ErrClosedPipe\<close> and sends nothing whenever the
  session is \<open>nil\<close> or the closed flag is set. An empty write on an open handler
  returns success and sends nothing. Over every sequence of writes, interleaved in any
  way with \<open>Start\<close> storing a session, the session being marked closed and \<open>Close\<close>,
  the "Hello" turn is sent at most once, and on a handler that has not sent it yet it
  is sent exactly in the first non-empty write that finds a session and a clear closed
  flag. What \<open>Write\<close> returns does not depend on the outcome of sending "Hello".\<close>

theorem Write_contract:
  "(session g = None \<or> sessionClosed g \<longrightarrow>
      Write env pcmData g = ((0, Some ErrClosedPipe), g, []))
   \<and> (session g \<noteq> None \<and> \<not> sessionClosed g \<longrightarrow> Write env [] g = ((0, None), g, []))
   \<and> length (filter is_hello (concat (map (\<lambda>r. snd (snd r)) (handler_run ops (g, m))))) \<le> 1
   \<and> (\<not> firstDataReceived g \<longrightarrow>
        (\<forall>k<length ops.
           hello_sent (handler_run ops (g, m) ! k) \<longleftrightarrow>
             forwarded (handler_run ops (g, m) ! k)
             \<and> (\<forall>j<k. \<not> forwarded (handler_run ops (g, m) ! j))))
   \<and> fst (Write (env\<lparr>hello_result := e\<rparr>) pcmData g) = fst (Write env pcmData g)"
proof (intro conjI impI allI)
  show "Write env pcmData g = ((0, Some ErrClosedPipe), g, [])"
    if "session g = None \<or> sessionClosed g" using that by (rule Write_rejects)
  show "Write env [] g = ((0, None), g, [])" if "session g \<noteq> None \<and> \<not> sessionClosed g"
    using that by (simp add: Write_empty)
  show "length (filter is_hello (concat (map (\<lambda>r. snd (snd r)) (handler_run ops (g, m))))) \<le> 1"
    using handler_run_hello_total[of ops g m] by (simp split: if_splits)
  show "hello_sent (handler_run ops (g, m) ! k) \<longleftrightarrow>
          forwarded (handler_run ops (g, m) ! k)
          \<and> (\<forall>j<k. \<not> forwarded (handler_run ops (g, m) ! j))"
    if "\<not> firstDataReceived g" "k < length ops" for k
    using handler_run_hello[OF that(2), of g m] that(1) by simp
  show "fst (Write (env\<lparr>hello_result := e\<rparr>) pcmData g) = fst (Write env pcmData g)"
    by (rule Write_hello_independent)
qed

text \<open>The theorem at the example handler: closed, open, and over the example
  calls.\<close>

theorem Write_contract_witness:
  "sessionClosed (example_handler\<lparr>sessionClosed := True\<rparr>)
   \<and> Write example_env [1] (example_handler\<lparr>sessionClosed := True\<rparr>)
       = ((0, Some ErrClosedPipe), example_handler\<lparr>sessionClosed := True\<rparr>, [])
   \<and> session example_handler = Some 1 \<and> sessionClosed example_handler = False
   \<and> Write example_env [] example_handler = ((0, None), example_handler, [])
   \<and> firstDataReceived (example_handler\<lparr>session := None\<rparr>) = False
   \<and> (3::nat) < length example_ops
   \<and> hello_sent (handler_run example_ops (example_handler\<lparr>session := None\<rparr>, example_bridge) ! 3)
   \<and> forwarded (handler_run example_ops (example_handler\<lparr>session := None\<rparr>, example_bridge) ! 3)
   \<and> fst (Write example_env [1] example_handler) = (1, None)"
  using Write_contract[of "example_handler\<lparr>sessionClosed := True\<rparr>" example_env "[1]" "[]" example_bridge None]
    Write_contract[of example_handler example_env "[1]" "[]" example_bridge None]
    Write_contract[of "example_handler\<lparr>session := None\<rparr>" example_env "[1]" example_ops example_bridge None]
  by (simp add: example_ops_def example_handler_def example_env_def Write_def hello_sent_def)

text \<open>C5. \<open>Close\<close> returns no error, whatever the wait and the closing of the
  session yield. Its steps come in this order: set the closed flag, close the stop
  channel unless it is closed already, wait for the receive loop or the timeout, close
  the session if there is one, cancel the context, remove the participant from the
  bridge. A second \<open>Close\<close> right after the first leaves the handler and the bridge
  as they are: the stop channel is not closed again, no session is closed again, and
  its \<open>RemoveParticipant\<close> call finds no entry to delete.\<close>

theorem Close_twice:
  assumes "Close d1 r1 g m = (e1, g1, m1, ev1)"
    and "Close d2 r2 g1 m1 = (e2, g2, m2, ev2)"
  shows "e1 = None \<and> e2 = None
    \<and> ev1 = [SetSessionClosed] @ (if g_stopChan g then [] else [CloseStopChan])
            @ [WaitReceiveLoop d1]
            @ (case session g of Some sess \<Rightarrow> [SessionClose sess r1] | None \<Rightarrow> [])
            @ (if cancel g then [CancelContext] else [])
            @ (if mediaBridge g then [BridgeRemoveParticipant (participantID g)] else [])
    \<and> sessionClosed g1 \<and> g_stopChan g1 \<and> session g1 = None
    \<and> (cancel g \<longrightarrow> ctx_cancelled g1)
    \<and> (mediaBridge g \<longrightarrow> participants m1 = (participants m)(participantID g := None))
    \<and> g2 = g1 \<and> m2 = m1
    \<and> ev2 = [SetSessionClosed, WaitReceiveLoop d2]
            @ (if cancel g then [CancelContext] else [])
            @ (if mediaBridge g then [BridgeRemoveParticipant (participantID g)] else [])"
proof -
  let ?g1 = "g\<lparr>sessionClosed := True, g_stopChan := True, session := None,
               ctx_cancelled := (cancel g \<or> ctx_cancelled g)\<rparr>"
  have first: "e1 = None" "g1 = ?g1"
    "m1 = (if mediaBridge g then snd (RemoveParticipant (participantID g) m) else m)"
    "ev1 = [SetSessionClosed] @ (if g_stopChan g then [] else [CloseStopChan])
            @ [WaitReceiveLoop d1]
            @ (case session g of Some sess \<Rightarrow> [SessionClose sess r1] | None \<Rightarrow> [])
            @ (if cancel g then [CancelContext] else [])
            @ (if mediaBridge g then [BridgeRemoveParticipant (participantID g)] else [])"
    using assms(1) unfolding Close_eq by simp_all
  have reg: "mediaBridge g \<longrightarrow> participants m1 = (participants m)(participantID g := None)"
    using first(3) by (simp add: RemoveParticipant_removes)
  then have absent: "mediaBridge g \<longrightarrow> RemoveParticipant (participantID g) m1 = (None, m1)"
    by (simp add: RemoveParticipant_absent)
  have second: "e2 = None" "g2 = g1" "m2 = m1"
    "ev2 = [SetSessionClosed, WaitReceiveLoop d2]
            @ (if cancel g then [CancelContext] else [])
            @ (if mediaBridge g then [BridgeRemoveParticipant (participantID g)] else [])"
    using assms(2) absent unfolding Close_eq first(2) by auto
  have props: "sessionClosed g1" "g_stopChan g1" "session g1 = None"
    "cancel g \<longrightarrow> ctx_cancelled g1"
    unfolding first(2) by simp_all
  show ?thesis using first(1,4) props reg second by blast
qed

text \<open>The theorem at the example handler, registered as \<open>D\<close> on the example
  bridge.\<close>

theorem Close_twice_witness:
  "Close True (Some (ErrExternal ''reset'')) example_handler example_bridge
     = (None,
        example_handler\<lparr>sessionClosed := True, g_stopChan := True, session := None,
                         ctx_cancelled := True\<rparr>,
        example_bridge\<lparr>participants := example_registry(''D'' := None)\<rparr>,
        [SetSessionClosed, CloseStopChan, WaitReceiveLoop True,
         SessionClose 1 (Some (ErrExternal ''reset'')), CancelContext,
         BridgeRemoveParticipant ''D''])
   \<and> Close False None
        (example_handler\<lparr>sessionClosed := True, g_stopChan := True, session := None,
                          ctx_cancelled := True\<rparr>)
        (example_bridge\<lparr>participants := example_registry(''D'' := None)\<rparr>)
     = (None,
        example_handler\<lparr>sessionClosed := True, g_stopChan := True, session := None,
                         ctx_cancelled := True\<rparr>,
        example_bridge\<lparr>participants := example_registry(''D'' := None)\<rparr>,
        [SetSessionClosed, WaitReceiveLoop False, CancelContext, BridgeRemoveParticipant ''D''])"
proof -
  have h1: "Close True (Some (ErrExternal ''reset'')) example_handler example_bridge
     = (None,
        example_handler\<lparr>sessionClosed := True, g_stopChan := True, session := None,
                         ctx_cancelled := True\<rparr>,
        example_bridge\<lparr>participants := example_registry(''D'' := None)\<rparr>,
        [SetSessionClosed, CloseStopChan, WaitReceiveLoop True,
         SessionClose 1 (Some (ErrExternal ''reset'')), CancelContext,
         BridgeRemoveParticipant ''D''])"
    by (simp add: Close_def Let_def markSessionClosed_def example_handler_def example_bridge_def
        example_registry_def RemoveParticipant_def)
  have h2: "Close False None
        (example_handler\<lparr>sessionClosed := True, g_stopChan := True, session := None,
                          ctx_cancelled := True\<rparr>)
        (example_bridge\<lparr>participants := example_registry(''D'' := None)\<rparr>)
     = (None,
        example_handler\<lparr>sessionClosed := True, g_stopChan := True, session := None,
                         ctx_cancelled := True\<rparr>,
        example_bridge\<lparr>participants := example_registry(''D'' := None)\<rparr>,
        [SetSessionClosed, WaitReceiveLoop False, CancelContext, BridgeRemoveParticipant ''D''])"
    by (simp add: Close_def Let_def markSessionClosed_def example_handler_def example_bridge_def
        example_registry_def RemoveParticipant_def)
  from Close_twice[OF h1 h2] h1 h2 show ?thesis by simp
qed

text \<open>C7. A running handler that holds a bridge and receives a message whose
  interrupted flag is set calls \<open>FlushQueues\<close> exactly once while handling it, and the
  loop goes on. \<open>FlushQueues\<close> never returns an error and leaves the bridge as it is;
  it calls \<open>FlushQueue\<close> once on each participant of the snapshot that implements it
  and on no other, and counts them.\<close>

theorem interrupted_flushes_once:
  "(\<not> g_stopChan g \<and> \<not> sessionClosed g \<and> session g \<noteq> None \<and> mediaBridge g
      \<and> ServerContent message = Some content \<and> Interrupted content
      \<and> receive_iteration resample (Received message) g m = (continue, g', m', evs, p)
     \<longrightarrow> p = None \<and> continue \<and> g' = g \<and> m' = m \<and> count_list evs BridgeFlushQueues = 1)
   \<and> (FlushQueues order b w = (err, b', w', flushedCount, tr) \<longrightarrow> err = None \<and> b' = b)
   \<and> (FlushQueues order b w = (err, b', w', flushedCount, tr)
        \<and> range_order (participants b) order \<longrightarrow>
          tr = [MuRLock, MuRUnlock]
                 @ map FlushQueueCall (filter (has_flusher (participants b)) order)
        \<and> flushedCount = length (filter (has_flusher (participants b)) order)
        \<and> (\<forall>i. count_list (flushed_ids tr) i
                  = (if has_flusher (participants b) i then 1 else 0)))"
proof (intro conjI impI)
  assume a: "\<not> g_stopChan g \<and> \<not> sessionClosed g \<and> session g \<noteq> None \<and> mediaBridge g
      \<and> ServerContent message = Some content \<and> Interrupted content
      \<and> receive_iteration resample (Received message) g m = (continue, g', m', evs, p)"
  obtain evs0 p0 where bp:
    "(case ModelTurn content of None \<Rightarrow> ([], None)
      | Some parts \<Rightarrow> broadcast_parts resample g parts) = (evs0, p0)"
    by (metis surj_pair)
  have "BridgeFlushQueues \<notin> set evs0 \<and> p0 = None"
  proof (cases "ModelTurn content")
    case None
    then show ?thesis using bp by simp
  next
    case (Some parts)
    then show ?thesis using bp broadcast_parts_events[of resample g parts evs0 p0] a by simp
  qed
  then have hm: "handle_message resample message g = (evs0 @ [BridgeFlushQueues], None)"
    "count_list evs0 BridgeFlushQueues = 0"
    using a bp by (simp_all add: handle_message_def)
  from a hm(1) have r: "continue" "g' = g" "m' = m" "p = None" "evs = evs0 @ [BridgeFlushQueues]"
    by (auto simp: receive_iteration_def)
  show "p = None" "continue" "g' = g" "m' = m" by (rule r)+
  show "count_list evs BridgeFlushQueues = 1"
    unfolding r(5) using hm(2) by (simp add: count_list_append)
next
  assume "FlushQueues order b w = (err, b', w', flushedCount, tr)"
  then show "err = None" "b' = b"
    by (auto simp: FlushQueues_def split: prod.splits)
next
  assume a: "FlushQueues order b w = (err, b', w', flushedCount, tr)
        \<and> range_order (participants b) order"
  let ?P = "participants b"
  obtain w1 cnt tr1 where fl: "flush_loop ?P order w 0 [] = (w1, cnt, tr1)"
    by (metis surj_pair)
  have pred: "(\<lambda>i. \<exists>p. ?P i = Some p \<and> FlushQueue p \<noteq> None) = has_flusher ?P"
    by (rule ext) (simp add: has_flusher_iff)
  from flush_loop_result[OF fl] have res:
    "tr1 = map FlushQueueCall (filter (has_flusher ?P) order)"
    "cnt = length (filter (has_flusher ?P) order)"
    unfolding pred by simp_all
  from a fl have eq: "tr = [MuRLock, MuRUnlock] @ tr1" "flushedCount = cnt"
    by (auto simp: FlushQueues_def)
  show "tr = [MuRLock, MuRUnlock] @ map FlushQueueCall (filter (has_flusher ?P) order)"
    using eq res by simp
  show "flushedCount = length (filter (has_flusher ?P) order)" using eq res by simp
  have d: "distinct order" and dom: "set order = dom ?P"
    using a by (simp_all add: range_order_def)
  have "has_flusher ?P i \<Longrightarrow> i \<in> set order" for i
    using dom by (auto simp: has_flusher_iff)
  then show "\<forall>i. count_list (flushed_ids tr) i = (if has_flusher ?P i then 1 else 0)"
    unfolding eq res using d by (auto simp: count_list_distinct)
qed

text \<open>The theorem at the example handler and the example bridge, where \<open>D\<close> and
  \<open>E\<close> implement \<open>FlushQueue\<close>.\<close>

theorem interrupted_flushes_once_witness:
  "receive_iteration (\<lambda>audio. Inr audio) (Received example_message) example_handler example_bridge
     = (True, example_handler, example_bridge,
        [BridgeBroadcast \<lparr>Data = [5, 6], SenderID = ''D''\<rparr>, BridgeFlushQueues], None)
   \<and> count_list [BridgeBroadcast \<lparr>Data = [5, 6], SenderID = ''D''\<rparr>, BridgeFlushQueues]
        BridgeFlushQueues = 1
   \<and> range_order (participants example_bridge) example_order
   \<and> FlushQueues example_order example_bridge 5
     = (None, example_bridge, 0, 2, [MuRLock, MuRUnlock, FlushQueueCall ''D'', FlushQueueCall ''E''])"
proof -
  have h1: "\<not> g_stopChan example_handler \<and> \<not> sessionClosed example_handler
      \<and> session example_handler \<noteq> None \<and> mediaBridge example_handler
      \<and> ServerContent example_message
          = Some \<lparr>ModelTurn = Some [\<lparr>InlineData = Some [5, 6]\<rparr>, \<lparr>InlineData = None\<rparr>],
              InputTranscription = None, OutputTranscription = None,
              TurnComplete = False, Interrupted = True\<rparr>
      \<and> Interrupted \<lparr>ModelTurn = Some [\<lparr>InlineData = Some [5, 6]\<rparr>, \<lparr>InlineData = None\<rparr>],
              InputTranscription = None, OutputTranscription = None,
              TurnComplete = False, Interrupted = True\<rparr>
      \<and> receive_iteration (\<lambda>audio. Inr audio) (Received example_message) example_handler
            example_bridge
          = (True, example_handler, example_bridge,
             [BridgeBroadcast \<lparr>Data = [5, 6], SenderID = ''D''\<rparr>, BridgeFlushQueues], None)"
    by (simp add: example_handler_def example_message_def receive_iteration_def
        handle_message_def)
  have h2: "range_order (participants example_bridge) example_order"
    by (auto simp: range_order_def example_bridge_def example_registry_def example_order_def)
  have h3: "FlushQueues example_order example_bridge 5
     = (None, example_bridge, 0, 2, [MuRLock, MuRUnlock, FlushQueueCall ''D'', FlushQueueCall ''E''])"
    by (simp add: FlushQueues_def example_bridge_def example_registry_def example_order_def)
  from interrupted_flushes_once
    [of example_handler example_message _ "\<lambda>audio. Inr audio" example_bridge True example_handler
      example_bridge _ None example_order example_bridge 5 None example_bridge 0 2]
    h1 h2 h3
  show ?thesis by simp
qed

end
